theory Spec2Isabelle
  imports Main "HOL-Library.AList" "HOL-Library.Sublist"
begin

section \<open>JavaScript values seen by the schema classifier\<close>

text \<open>
  \<^verbatim>\<open>identifySchema(api, paramsObject)\<close> of \<^verbatim>\<open>schema_id.js\<close> probes an already evaluated
  parameter object with property reads and truthiness tests only. The values are modelled
  as plain data: \<^verbatim>\<open>undefined\<close>, \<^verbatim>\<open>null\<close>, booleans, numbers with an integer value, strings,
  arrays and plain objects; an object is its list of own properties in the order written,
  a later entry for the same key winning as in an object literal, and its prototype is
  \<^verbatim>\<open>Object.prototype\<close>. \<open>JFun\<close> stands for a built-in
  method such as \<^verbatim>\<open>Array.prototype.push\<close>, which the classifier only tests for truthiness.
\<close>

datatype jsval =
    JUndefined
  | JNull
  | JBool bool
  | JNum int
  | JStr string
  | JArr "jsval list"
  | JObj "(string \<times> jsval) list"
  | JFun string

text \<open>
  \<open>TypeError\<close> is the exception the JavaScript throws. \<open>OutsideModel\<close> is no behaviour
  of the program: it marks the inputs on which the embedding gives no verdict, because
  the result depends on converting a string, an array, an object or a function to a
  floating-point number (see \<open>loop_bound\<close> below).
\<close>

datatype error = TypeError | OutsideModel

text \<open>The six labels of \<^verbatim>\<open>KnownSchema\<close> and the two values of \<^verbatim>\<open>Api\<close>.\<close>

datatype KnownSchema = UNKNOWN | UNKNOWN_GTAG | GTM_UA | GTM_LEGACY_GA4 | GTAG_UA | UNIFIED

datatype Api = DATA_LAYER | GTAG

fun schema_label :: "KnownSchema \<Rightarrow> string" where
  "schema_label UNKNOWN = ''unknown''"
| "schema_label UNKNOWN_GTAG = ''gtag-unknown''"
| "schema_label GTM_UA = ''ua-gtm''"
| "schema_label GTM_LEGACY_GA4 = ''ga4-gtm''"
| "schema_label GTAG_UA = ''ua-gtag''"
| "schema_label UNIFIED = ''ga4-gtag''"

text \<open>ToBoolean: what \<^verbatim>\<open>if (v)\<close>, \<^verbatim>\<open>!v\<close> and \<^verbatim>\<open>v || w\<close> test.\<close>

fun truthy :: "jsval \<Rightarrow> bool" where
  "truthy JUndefined = False"
| "truthy JNull = False"
| "truthy (JBool b) = b"
| "truthy (JNum n) = (n \<noteq> 0)"
| "truthy (JStr s) = (s \<noteq> [])"
| "truthy (JArr xs) = True"
| "truthy (JObj kvs) = True"
| "truthy (JFun f) = True"

fun nullish :: "jsval \<Rightarrow> bool" where
  "nullish JUndefined = True"
| "nullish JNull = True"
| "nullish v = False"

text \<open>\<^verbatim>\<open>a || b\<close>: the left operand when it is truthy, the right one otherwise.\<close>

definition js_or :: "jsval \<Rightarrow> jsval \<Rightarrow> jsval" where
  "js_or a b = (if truthy a then a else b)"

subsection \<open>Decimal index keys\<close>

definition is_digit :: "char \<Rightarrow> bool" where
  "is_digit c = (c \<in> set ''0123456789'')"

definition digit_value :: "char \<Rightarrow> nat" where
  "digit_value c = (of_char c :: nat) - 48"

definition nat_of_digits :: "string \<Rightarrow> nat" where
  "nat_of_digits s = foldl (\<lambda>a c. 10 * a + digit_value c) 0 s"

definition digit_char :: "nat \<Rightarrow> char" where
  "digit_char d = ''0123456789'' ! d"

text \<open>\<^verbatim>\<open>String(i)\<close> for a non-negative integer: the key under which index \<open>i\<close> is stored.\<close>

function dec :: "nat \<Rightarrow> string" where
  "dec n = (if n < 10 then [digit_char n] else dec (n div 10) @ [digit_char (n mod 10)])"
  by pat_completeness auto
termination
  by (relation "measure id") auto

declare dec.simps [simp del]

text \<open>
  A property key is an array index when it is the canonical decimal form of a number
  below \<open>2^32 - 1\<close>: no leading zero, digits only.
\<close>

definition index_of :: "string \<Rightarrow> nat option" where
  "index_of k =
     (if k \<noteq> [] \<and> list_all is_digit k \<and> (k = ''0'' \<or> hd k \<noteq> CHR ''0'')
         \<and> nat_of_digits k < 4294967295
      then Some (nat_of_digits k) else None)"

subsection \<open>Property reads\<close>

definition obj_lookup :: "(string \<times> jsval) list \<Rightarrow> string \<Rightarrow> jsval" where
  "obj_lookup kvs k = (case map_of (rev kvs) k of None \<Rightarrow> JUndefined | Some v \<Rightarrow> v)"

text \<open>
  \<open>js_prop v k\<close> is \<^verbatim>\<open>v[k]\<close> for a value that is neither \<^verbatim>\<open>undefined\<close> nor \<^verbatim>\<open>null\<close>, for the
  keys the classifier reads: an own property of an object; \<^verbatim>\<open>length\<close>, \<^verbatim>\<open>push\<close> and the
  elements of an array; \<^verbatim>\<open>length\<close> and the characters of a string; \<^verbatim>\<open>length\<close> and
  \<^verbatim>\<open>name\<close> of a built-in method. None of the names the classifier uses is inherited from
  \<^verbatim>\<open>Object.prototype\<close>, so every other read is \<^verbatim>\<open>undefined\<close>.
\<close>

fun js_prop :: "jsval \<Rightarrow> string \<Rightarrow> jsval" where
  "js_prop (JObj kvs) k = obj_lookup kvs k"
| "js_prop (JArr xs) k =
     (if k = ''length'' then JNum (int (length xs))
      else if k = ''push'' then JFun ''push''
      else (case index_of k of
              Some i \<Rightarrow> (if i < length xs then xs ! i else JUndefined)
            | None \<Rightarrow> JUndefined))"
| "js_prop (JStr s) k =
     (if k = ''length'' then JNum (int (length s))
      else (case index_of k of
              Some i \<Rightarrow> (if i < length s then JStr [s ! i] else JUndefined)
            | None \<Rightarrow> JUndefined))"
| "js_prop (JFun f) k =
     (if k = ''length'' then JNum 1 else if k = ''name'' then JStr f else JUndefined)"
| "js_prop v k = JUndefined"

text \<open>
  Reading a property of \<^verbatim>\<open>undefined\<close> or \<^verbatim>\<open>null\<close> throws a TypeError: the classifier
  below tests \<open>nullish\<close> before each first read of a value and fails there.
\<close>

text \<open>\<open>has v k\<close>: the test \<^verbatim>\<open>if (v[k])\<close> on a value that is not nullish.\<close>

definition has :: "jsval \<Rightarrow> string \<Rightarrow> bool" where
  "has v k = truthy (js_prop v k)"

text \<open>
  The number of passes of \<^verbatim>\<open>for (let i = 0; i < items.length; i++)\<close>, from the value of
  \<^verbatim>\<open>items.length\<close>. A number \<open>n\<close> gives \<open>n\<close> passes (none when it is negative),
  \<^verbatim>\<open>true\<close> converts to 1, \<^verbatim>\<open>false\<close> and \<^verbatim>\<open>null\<close> to 0, and \<^verbatim>\<open>undefined\<close> to NaN, with
  which every comparison is false. For an array the length is a number. Any other length
  (a string, an array, an object, a function, which only an array-like object can carry
  as its own \<^verbatim>\<open>length\<close>) goes through the conversion of a text to a floating-point
  number, which is not modelled: the embedding gives no verdict there.
\<close>

fun loop_bound :: "jsval \<Rightarrow> error + nat" where
  "loop_bound (JNum n) = Inr (nat n)"
| "loop_bound (JBool b) = Inr (if b then 1 else 0)"
| "loop_bound JNull = Inr 0"
| "loop_bound JUndefined = Inr 0"
| "loop_bound v = Inl OutsideModel"

section \<open>The schema classifier\<close>

text \<open>
  The body of the \<^verbatim>\<open>for\<close> loop over \<^verbatim>\<open>items\<close>. \<open>None\<close> is \<^verbatim>\<open>undefined\<close>, the initial value
  of \<^verbatim>\<open>currentSchema\<close> and of \<^verbatim>\<open>thisItemSchema\<close>. Every label is a non-empty string, so
  \<^verbatim>\<open>!currentSchema\<close> holds exactly when \<^verbatim>\<open>currentSchema\<close> is still \<^verbatim>\<open>undefined\<close>.
\<close>

definition thisItemSchema :: "jsval \<Rightarrow> KnownSchema option" where
  "thisItemSchema item =
     (let s1 = (if has item ''item_id'' \<or> has item ''item_name'' \<or> has item ''promotion_id''
                   \<or> has item ''promotion_name'' \<or> has item ''creative_name''
                then Some UNIFIED else None)
      in if has item ''id'' \<or> has item ''name'' then Some GTAG_UA else s1)"

definition fold_schema :: "KnownSchema option \<Rightarrow> KnownSchema option \<Rightarrow> KnownSchema option" where
  "fold_schema currentSchema this =
     (if currentSchema = None then this
      else if currentSchema = this then this
      else Some UNKNOWN_GTAG)"

function items_loop :: "jsval \<Rightarrow> nat \<Rightarrow> nat \<Rightarrow> KnownSchema option \<Rightarrow> error + KnownSchema option" where
  "items_loop items n i currentSchema =
     (if i < n then
        (let item = js_prop items (dec i) in
         if nullish item then Inl TypeError
         else items_loop items n (Suc i) (fold_schema currentSchema (thisItemSchema item)))
      else Inr currentSchema)"
  by pat_completeness auto
termination
  by (relation "measure (\<lambda>(items, n, i, c). n - i)") auto

declare items_loop.simps [simp del]

text \<open>
  \<^verbatim>\<open>identifySchema\<close>. The result is \<open>Inl TypeError\<close> when the JavaScript throws,
  \<open>Inr None\<close> when it returns \<^verbatim>\<open>undefined\<close>, and \<open>Inr (Some l)\<close> when it returns the
  label \<open>l\<close>; \<open>Inl OutsideModel\<close> is given for an array-like \<^verbatim>\<open>items\<close> whose length is
  not covered by \<open>loop_bound\<close>.
\<close>

definition identify_gtag :: "jsval \<Rightarrow> error + KnownSchema option" where
  "identify_gtag paramsObject =
     (if nullish paramsObject then Inl TypeError
      else if \<not> (has paramsObject ''items'' \<or> has paramsObject ''transaction_id''
                  \<or> has paramsObject ''value'' \<or> has paramsObject ''currency'')
      then Inr (Some UNKNOWN)
      else
        (let items = js_prop paramsObject ''items'' in
         if nullish items then Inl TypeError
         else if \<not> truthy (js_prop items ''length'') then Inr (Some UNKNOWN_GTAG)
         else if \<not> truthy (js_prop items ''push'') then Inr (Some UNKNOWN_GTAG)
         else
           (case loop_bound (js_prop items ''length'') of
              Inl e \<Rightarrow> Inl e
            | Inr n \<Rightarrow> items_loop items n 0 None)))"

definition actionObject :: "jsval \<Rightarrow> jsval" where
  "actionObject ecommerceObject =
     js_or (js_prop ecommerceObject ''detail'')
    (js_or (js_prop ecommerceObject ''click'')
    (js_or (js_prop ecommerceObject ''add'')
    (js_or (js_prop ecommerceObject ''remove'')
    (js_or (js_prop ecommerceObject ''purchase'')
    (js_or (js_prop ecommerceObject ''refund'')
    (js_or (js_prop ecommerceObject ''checkout'')
    (js_or (js_prop ecommerceObject ''checkoutStep'')
    (js_or (js_prop ecommerceObject ''promoView'')
           (js_prop ecommerceObject ''promoClick'')))))))))"

definition identify_dataLayer :: "jsval \<Rightarrow> error + KnownSchema option" where
  "identify_dataLayer paramsObject =
     (if nullish paramsObject then Inl TypeError
      else if \<not> truthy (js_prop paramsObject ''ecommerce'') then Inr (Some UNKNOWN)
      else
        (let ecommerceObject = js_prop paramsObject ''ecommerce'' in
         if has ecommerceObject ''items'' \<or> has ecommerceObject ''transaction_id''
            \<or> has ecommerceObject ''value''
         then Inr (Some GTM_LEGACY_GA4)
         else
           (let a = actionObject ecommerceObject in
            if truthy a \<and> (has a ''actionField'' \<or> has a ''products'' \<or> has a ''promotions'')
            then Inr (Some GTM_UA)
            else if truthy a \<and> has a ''items'' then Inr (Some GTM_LEGACY_GA4)
            else if has ecommerceObject ''impressions'' then Inr (Some GTM_UA)
            else Inr (Some UNKNOWN))))"

fun identifySchema :: "Api \<Rightarrow> jsval \<Rightarrow> error + KnownSchema option" where
  "identifySchema GTAG paramsObject = identify_gtag paramsObject"
| "identifySchema DATA_LAYER paramsObject = identify_dataLayer paramsObject"

section \<open>Regular expressions of the hit decoders\<close>

text \<open>
  The regular expressions of \<^verbatim>\<open>ga4.js\<close> and \<^verbatim>\<open>measurement_protocol.js\<close> are sequences of
  literals, single character classes under \<^verbatim>\<open>?\<close>, \<^verbatim>\<open>*\<close> or \<^verbatim>\<open>+\<close>, and one alternation of
  literals. \<open>rmatch re s\<close> matches \<open>re\<close> at the start of \<open>s\<close> the way a backtracking
  matcher does: a quantifier takes as many characters as it can and gives them back one
  by one while the rest of the expression fails; alternatives are tried in their order.
  The result holds the text consumed by each item, from which the capturing groups are
  read, and the input left after the match.
\<close>

datatype item =
    Lit string
  | One "char \<Rightarrow> bool"
  | Opt "char \<Rightarrow> bool"
  | Star "char \<Rightarrow> bool"
  | Plus "char \<Rightarrow> bool"
  | Alt "string list"

definition took :: "string \<Rightarrow> string list \<times> string \<Rightarrow> string list \<times> string" where
  "took g r = (g # fst r, snd r)"

definition took_more :: "char \<Rightarrow> string list \<times> string \<Rightarrow> string list \<times> string" where
  "took_more x r = ((x # hd (fst r)) # tl (fst r), snd r)"

fun item_weight :: "item \<Rightarrow> nat" where
  "item_weight (Alt as) = Suc (length as)"
| "item_weight i = 1"

function (sequential) rmatch :: "item list \<Rightarrow> string \<Rightarrow> (string list \<times> string) option" where
  "rmatch [] s = Some ([], s)"
| "rmatch (Lit l # r) s =
     (if prefix l s then map_option (took l) (rmatch r (drop (length l) s)) else None)"
| "rmatch (One c # r) [] = None"
| "rmatch (One c # r) (x # xs) = (if c x then map_option (took [x]) (rmatch r xs) else None)"
| "rmatch (Opt c # r) [] = map_option (took []) (rmatch r [])"
| "rmatch (Opt c # r) (x # xs) =
     (if c x then
        (case rmatch r xs of
           Some m \<Rightarrow> Some (took [x] m)
         | None \<Rightarrow> map_option (took []) (rmatch r (x # xs)))
      else map_option (took []) (rmatch r (x # xs)))"
| "rmatch (Star c # r) [] = map_option (took []) (rmatch r [])"
| "rmatch (Star c # r) (x # xs) =
     (if c x then
        (case rmatch (Star c # r) xs of
           Some m \<Rightarrow> Some (took_more x m)
         | None \<Rightarrow> map_option (took []) (rmatch r (x # xs)))
      else map_option (took []) (rmatch r (x # xs)))"
| "rmatch (Plus c # r) [] = None"
| "rmatch (Plus c # r) (x # xs) =
     (if c x then map_option (took_more x) (rmatch (Star c # r) xs) else None)"
| "rmatch (Alt [] # r) s = None"
| "rmatch (Alt (a # as) # r) s =
     (case (if prefix a s then rmatch r (drop (length a) s) else None) of
        Some m \<Rightarrow> Some (took a m)
      | None \<Rightarrow> rmatch (Alt as # r) s)"
  by pat_completeness auto
termination
  by (relation "measures [\<lambda>(re, s). length s, \<lambda>(re, s). sum_list (map item_weight re)]")
     auto

text \<open>\<^verbatim>\<open>re.test(s)\<close>: is there a position of \<open>s\<close> at which \<open>re\<close> matches.\<close>

fun regex_test :: "item list \<Rightarrow> string \<Rightarrow> bool" where
  "regex_test re [] = (case rmatch re [] of None \<Rightarrow> False | Some m \<Rightarrow> True)"
| "regex_test re (x # xs) =
     (case rmatch re (x # xs) of None \<Rightarrow> regex_test re xs | Some m \<Rightarrow> True)"

text \<open>
  \<^verbatim>\<open>s.matchAll(re)\<close> for a global \<open>re\<close>: the matches from left to right, each search
  starting where the previous match ended (one character further after an empty match).
  Each match is given as the list of the texts its items consumed.
\<close>

function matchAll :: "item list \<Rightarrow> string \<Rightarrow> string list list" where
  "matchAll re [] = (case rmatch re [] of None \<Rightarrow> [] | Some m \<Rightarrow> [fst m])"
| "matchAll re (x # xs) =
     (case rmatch re (x # xs) of
        None \<Rightarrow> matchAll re xs
      | Some m \<Rightarrow>
          fst m # (if length (snd m) < length (x # xs) then matchAll re (snd m)
                   else matchAll re xs))"
  by pat_completeness auto
termination
  by (relation "measure (\<lambda>(re, s). length s)") auto

subsection \<open>Character classes\<close>

definition is_word :: "char \<Rightarrow> bool" where
  "is_word c =
     (c \<in> set ''abcdefghijklmnopqrstuvwxyzABCDEFGHIJKLMNOPQRSTUVWXYZ0123456789_'')"

definition not_amp :: "char \<Rightarrow> bool" where
  "not_amp c = (c \<noteq> CHR ''&'')"

definition not_eq :: "char \<Rightarrow> bool" where
  "not_eq c = (c \<noteq> CHR ''='')"

definition is_n :: "char \<Rightarrow> bool" where
  "is_n c = (c = CHR ''n'')"

definition is_eq :: "char \<Rightarrow> bool" where
  "is_eq c = (c = CHR ''='')"

text \<open>
  The dot matches every character but a line terminator. Strings are sequences of
  one-byte characters here, so the line feed and the carriage return are the line
  terminators there are.
\<close>

definition dot :: "char \<Rightarrow> bool" where
  "dot c = (c \<noteq> CHR 0x0A \<and> c \<noteq> CHR 0x0D)"

subsection \<open>The expressions of \<^verbatim>\<open>ga4.js\<close>\<close>

definition GA4_URL_REGEX :: "item list" where
  "GA4_URL_REGEX = [Lit ''/g/collect?'']"

text \<open>Items 1 and 3 are the capturing groups 1 (product index) and 2 (product data).\<close>

definition GA4_PRODUCT_REGEX :: "item list" where
  "GA4_PRODUCT_REGEX = [Lit ''&pr'', Plus is_digit, Lit ''='', Star not_amp]"

text \<open>Items 3 and 5 are the capturing groups 1 (parameter name) and 2 (value).\<close>

definition GA4_PARAM_REGEX :: "item list" where
  "GA4_PARAM_REGEX = [Lit ''&ep'', Opt is_n, Lit ''.'', Plus not_eq, Lit ''='', Star not_amp]"

text \<open>Item 1 is the capturing group 1 (event name).\<close>

definition GA4_EVENT_NAME_REGEX :: "item list" where
  "GA4_EVENT_NAME_REGEX = [Lit ''&en='', Star not_amp]"

subsection \<open>The expressions of \<^verbatim>\<open>measurement_protocol.js\<close>\<close>

definition UA_LEGACY_REGEX :: "item list" where
  "UA_LEGACY_REGEX = [Lit ''/collect?'', Star dot, Lit ''&el=GTM'']"

definition UA_GA4_REGEX :: "item list" where
  "UA_GA4_REGEX = [Lit ''/collect?'', Star dot, Lit ''&el=GA4'']"

text \<open>Group 1 is item 1, group 2 is items 2 and 3, group 3 is item 5.\<close>

definition UA_PRODUCT_REGEX :: "item list" where
  "UA_PRODUCT_REGEX =
     [Lit ''&pr'', Plus is_digit, One is_word, One is_word, Opt is_eq, Star not_amp]"

text \<open>Group 1 is item 1, group 2 is item 3.\<close>

definition UA_LIST_NAME_REGEX :: "item list" where
  "UA_LIST_NAME_REGEX = [Lit ''&il'', Plus is_digit, Lit ''nm='', Star not_amp]"

text \<open>Group 1 is item 1, group 2 is item 3, group 3 is items 4 and 5, group 4 is item 7.\<close>

definition UA_IMPRESSION_REGEX :: "item list" where
  "UA_IMPRESSION_REGEX =
     [Lit ''&il'', Plus is_digit, Lit ''pi'', Plus is_digit, One is_word, One is_word,
      Lit ''='', Star not_amp]"

text \<open>Group 1 is item 1, group 2 is items 2 and 3, group 3 is item 5.\<close>

definition UA_PROMO_REGEX :: "item list" where
  "UA_PROMO_REGEX =
     [Lit ''&promo'', Plus is_digit, One is_word, One is_word, Lit ''='', Star not_amp]"

text \<open>Group 1 is item 1, group 2 is item 3.\<close>

definition UA_PARAMS_REGEX :: "item list" where
  "UA_PARAMS_REGEX =
     [Lit ''&'',
      Alt [''pa'', ''ti'', ''ta'', ''tr'', ''tt'', ''ts'', ''tcc'', ''pal'', ''cos'', ''col'',
           ''promoa'', ''cu''],
      Lit ''='', Star not_amp]"

section \<open>The event record and its objects\<close>

text \<open>
  An object with string values is the list of its own properties in insertion order;
  assigning to an existing key keeps its place. Assigning a string to \<^verbatim>\<open>__proto__\<close>
  creates no property. An array that is only ever assigned by key is such a list too:
  its keys are the strings captured from the URL.
\<close>

type_synonym product = "(string \<times> string) list"

definition obj_set :: "product \<Rightarrow> string \<Rightarrow> string \<Rightarrow> product" where
  "obj_set obj k v = (if k = ''__proto__'' then obj else AList.update k v obj)"

text \<open>
  \<^verbatim>\<open>obj[TABLE[code]] = value\<close>: the key is the canonical name of the table, and the string
  \<^verbatim>\<open>undefined\<close> when the table has no entry for the code.
\<close>

definition field_name :: "(string \<times> string) list \<Rightarrow> string \<Rightarrow> string" where
  "field_name table code = (case map_of table code of None \<Rightarrow> ''undefined'' | Some n \<Rightarrow> n)"

definition set_field :: "(string \<times> string) list \<Rightarrow> product \<Rightarrow> string \<Rightarrow> string \<Rightarrow> product" where
  "set_field table obj code v = obj_set obj (field_name table code) v"

record ImpressionList =
  il_name :: "string option"
  il_impressions :: "(string \<times> product) list"

record EventRecord =
  products :: "(string \<times> product) list"
  impressions :: "(string \<times> ImpressionList) list option"
  promos :: "(string \<times> product) list option"
  params :: "product option"
  event :: "string option"

text \<open>\<^verbatim>\<open>arr[key] || {}\<close>: the entry stored under the key, a fresh object otherwise.\<close>

definition entry_or_new :: "(string \<times> product) list \<Rightarrow> string \<Rightarrow> product" where
  "entry_or_new arr key = (case map_of arr key of None \<Rightarrow> [] | Some p \<Rightarrow> p)"

section \<open>The Protocol-A decoder (\<^verbatim>\<open>ga4.js\<close>)\<close>

definition GA4_PRODUCT_FIELDS :: "(string \<times> string) list" where
  "GA4_PRODUCT_FIELDS =
     [(''id'', ''item_id''), (''nm'', ''item_name''), (''br'', ''item_brand''),
      (''ca'', ''item_category''), (''c2'', ''item_category2''), (''c3'', ''item_category3''),
      (''c4'', ''item_category4''), (''c5'', ''item_category5''), (''va'', ''item_variant''),
      (''pr'', ''price''), (''qt'', ''quantity''), (''cp'', ''coupon''),
      (''ln'', ''item_list_name''), (''li'', ''item_list_id''), (''lp'', ''index''),
      (''ds'', ''discount''), (''af'', ''affiliation''), (''pi'', ''promotion_id''),
      (''pn'', ''promotion_name''), (''cn'', ''creative_name''), (''cs'', ''creative_slot''),
      (''lo'', ''Location ID'')]"

text \<open>\<^verbatim>\<open>s.split(c)\<close> for a one-character separator: never empty.\<close>

fun split_on :: "char \<Rightarrow> string \<Rightarrow> string list" where
  "split_on c [] = [[]]"
| "split_on c (x # xs) =
     (if x = c then [] # split_on c xs
      else (x # hd (split_on c xs)) # tl (split_on c xs))"

text \<open>
  The \<^verbatim>\<open>while\<close> loop of \<^verbatim>\<open>parse\<close>. The first argument is \<^verbatim>\<open>productPart\<close>, the second the
  parts after position \<^verbatim>\<open>i\<close>; the result is the finished part and the parts after the
  final \<^verbatim>\<open>i\<close>. While the next part is empty, a tilde is appended, then the part after
  it (nothing when that one is empty or missing), and \<^verbatim>\<open>i\<close> moves on by two.
\<close>

fun merge_tilde :: "string \<Rightarrow> string list \<Rightarrow> string \<times> string list" where
  "merge_tilde productPart [] = (productPart, [])"
| "merge_tilde productPart [p] =
     (if p = [] then (productPart @ ''~'', []) else (productPart, [p]))"
| "merge_tilde productPart (p # q # ps) =
     (if p = [] then merge_tilde (productPart @ ''~'' @ q) ps
      else (productPart, p # q # ps))"

lemma merge_tilde_length: "length (snd (merge_tilde a ps)) \<le> length ps"
  by (induction a ps rule: merge_tilde.induct) auto

text \<open>
  The \<^verbatim>\<open>for\<close> loop over \<^verbatim>\<open>productParts\<close>: each finished part stores its text after the
  first two characters under the name of the code formed by these two.
\<close>

function parts_loop :: "product \<Rightarrow> string list \<Rightarrow> product" where
  "parts_loop product [] = product"
| "parts_loop product (p # ps) =
     parts_loop
       (set_field GA4_PRODUCT_FIELDS product
          (take 2 (fst (merge_tilde p ps))) (drop 2 (fst (merge_tilde p ps))))
       (snd (merge_tilde p ps))"
  by pat_completeness auto
termination
  by (relation "measure (\<lambda>(product, ps). length ps)")
     (auto simp: merge_tilde_length less_Suc_eq_le)

definition parse_product :: "string \<Rightarrow> product" where
  "parse_product payload = parts_loop [] (split_on CHR ''~'' payload)"

text \<open>
  The body of the loop over the product matches: \<^verbatim>\<open>parsedData.products[p[1]] = product\<close>.
  A match is the list of the texts of its items, groups 1 and 2 being items 1 and 3.
\<close>

definition ga4_product_step :: "(string \<times> product) list \<Rightarrow> string list \<Rightarrow> (string \<times> product) list" where
  "ga4_product_step arr p = AList.update (p ! 1) (parse_product (p ! 3)) arr"

definition ga4_products :: "string \<Rightarrow> (string \<times> product) list" where
  "ga4_products url = foldl ga4_product_step [] (matchAll GA4_PRODUCT_REGEX url)"

definition ga4_params :: "string \<Rightarrow> product" where
  "ga4_params url =
     foldl (\<lambda>ps p. obj_set ps (p ! 3) (p ! 5)) [] (matchAll GA4_PARAM_REGEX url)"

definition ga4_event :: "string \<Rightarrow> string option" where
  "ga4_event url =
     (case matchAll GA4_EVENT_NAME_REGEX url of [] \<Rightarrow> None | m # ms \<Rightarrow> Some (m ! 1))"

text \<open>
  \<^verbatim>\<open>parse(url)\<close> of \<^verbatim>\<open>ga4.js\<close>. The iterator returned by \<^verbatim>\<open>matchAll\<close> is an object, so the
  tests \<^verbatim>\<open>if (products)\<close> and \<^verbatim>\<open>if (params)\<close> always pass and \<^verbatim>\<open>params\<close> is always set.
  No operation of the function can throw on a string.
\<close>

definition ga4_parse :: "string \<Rightarrow> EventRecord" where
  "ga4_parse url =
     \<lparr> products = ga4_products url, impressions = None, promos = None,
       params = Some (ga4_params url), event = ga4_event url \<rparr>"

definition isGa4Hit :: "string \<Rightarrow> bool" where
  "isGa4Hit url = regex_test GA4_URL_REGEX url"

section \<open>The Protocol-B decoder (\<^verbatim>\<open>measurement_protocol.js\<close>)\<close>

definition UA_PRODUCT_FIELDS :: "(string \<times> string) list" where
  "UA_PRODUCT_FIELDS =
     [(''id'', ''item_id''), (''nm'', ''item_name''), (''br'', ''item_brand''),
      (''ca'', ''item_category''), (''va'', ''item_variant''), (''qt'', ''quantity''),
      (''pr'', ''price''), (''cc'', ''coupon''), (''ps'', ''index'')]"

definition UA_IMPRESSION_FIELDS :: "(string \<times> string) list" where
  "UA_IMPRESSION_FIELDS =
     [(''id'', ''item_id''), (''nm'', ''item_name''), (''br'', ''item_brand''),
      (''ca'', ''item_category''), (''va'', ''item_variant''), (''ps'', ''index''),
      (''pr'', ''price'')]"

definition UA_PROMOTION_FIELDS :: "(string \<times> string) list" where
  "UA_PROMOTION_FIELDS =
     [(''id'', ''item_id''), (''nm'', ''item_name''), (''cr'', ''creative_name''),
      (''ps'', ''index'')]"

definition UA_PARAMS :: "(string \<times> string) list" where
  "UA_PARAMS =
     [(''pa'', ''product_action''), (''ti'', ''transaction_id''), (''ta'', ''affiliation''),
      (''tr'', ''value''), (''tt'', ''tax''), (''ts'', ''shipping''), (''tcc'', ''coupon''),
      (''pal'', ''item_list_name''), (''cos'', ''checkout_step''),
      (''col'', ''checkout_option''), (''promoa'', ''promo_action''), (''cu'', ''currency'')]"

text \<open>
  The body shared by the product, impression and promotion loops:
  \<^verbatim>\<open>const o = arr[index] || {}; o[TABLE[code]] = value; arr[index] = o;\<close>
\<close>

definition merge_field ::
  "(string \<times> string) list \<Rightarrow> (string \<times> product) list \<Rightarrow> string \<Rightarrow> string \<Rightarrow> string
     \<Rightarrow> (string \<times> product) list" where
  "merge_field table arr index code v =
     AList.update index (set_field table (entry_or_new arr index) code v) arr"

text \<open>
  The loop bodies take a match as the list of the texts of its items; the comments at the
  expressions say which items form which capturing group.
\<close>

definition mp_product_step :: "(string \<times> product) list \<Rightarrow> string list \<Rightarrow> (string \<times> product) list" where
  "mp_product_step arr p = merge_field UA_PRODUCT_FIELDS arr (p ! 1) (p ! 2 @ p ! 3) (p ! 5)"

definition mp_products :: "string \<Rightarrow> (string \<times> product) list" where
  "mp_products url = foldl mp_product_step [] (matchAll UA_PRODUCT_REGEX url)"

text \<open>\<^verbatim>\<open>parsedData.impressions[index] || { impressions: [] }\<close>\<close>

definition list_or_new :: "(string \<times> ImpressionList) list \<Rightarrow> string \<Rightarrow> ImpressionList" where
  "list_or_new imps index =
     (case map_of imps index of
        None \<Rightarrow> \<lparr> il_name = None, il_impressions = [] \<rparr>
      | Some l \<Rightarrow> l)"

definition set_list_name ::
  "(string \<times> ImpressionList) list \<Rightarrow> string \<Rightarrow> string \<Rightarrow> (string \<times> ImpressionList) list" where
  "set_list_name imps index listName =
     AList.update index ((list_or_new imps index)\<lparr> il_name := Some listName \<rparr>) imps"

definition merge_impression ::
  "(string \<times> ImpressionList) list \<Rightarrow> string \<Rightarrow> string \<Rightarrow> string \<Rightarrow> string
     \<Rightarrow> (string \<times> ImpressionList) list" where
  "merge_impression imps listIndex index code v =
     AList.update listIndex
       ((list_or_new imps listIndex)
          \<lparr> il_impressions :=
              merge_field UA_IMPRESSION_FIELDS (il_impressions (list_or_new imps listIndex))
                index code v \<rparr>)
       imps"

definition mp_list_name_step ::
  "(string \<times> ImpressionList) list \<Rightarrow> string list \<Rightarrow> (string \<times> ImpressionList) list" where
  "mp_list_name_step imps l = set_list_name imps (l ! 1) (l ! 3)"

definition mp_list_names :: "string \<Rightarrow> (string \<times> ImpressionList) list" where
  "mp_list_names url = foldl mp_list_name_step [] (matchAll UA_LIST_NAME_REGEX url)"

definition mp_impression_step ::
  "(string \<times> ImpressionList) list \<Rightarrow> string list \<Rightarrow> (string \<times> ImpressionList) list" where
  "mp_impression_step imps i = merge_impression imps (i ! 1) (i ! 3) (i ! 4 @ i ! 5) (i ! 7)"

definition mp_impressions :: "string \<Rightarrow> (string \<times> ImpressionList) list" where
  "mp_impressions url =
     foldl mp_impression_step (mp_list_names url) (matchAll UA_IMPRESSION_REGEX url)"

definition mp_promo_step :: "(string \<times> product) list \<Rightarrow> string list \<Rightarrow> (string \<times> product) list" where
  "mp_promo_step arr p = merge_field UA_PROMOTION_FIELDS arr (p ! 1) (p ! 2 @ p ! 3) (p ! 5)"

definition mp_promos :: "string \<Rightarrow> (string \<times> product) list" where
  "mp_promos url = foldl mp_promo_step [] (matchAll UA_PROMO_REGEX url)"

definition mp_params :: "string \<Rightarrow> product" where
  "mp_params url =
     foldl (\<lambda>ps f. set_field UA_PARAMS ps (f ! 1) (f ! 3)) [] (matchAll UA_PARAMS_REGEX url)"

text \<open>
  \<^verbatim>\<open>parse(url)\<close> of \<^verbatim>\<open>measurement_protocol.js\<close>. As in \<^verbatim>\<open>ga4.js\<close> every \<^verbatim>\<open>if\<close> on a
  \<^verbatim>\<open>matchAll\<close> iterator passes, so \<^verbatim>\<open>impressions\<close>, \<^verbatim>\<open>promos\<close> and \<^verbatim>\<open>params\<close> are
  always set; the function sets no event name and cannot throw on a string. The objects
  it updates in place are reachable only through the array slot they are stored in, so
  the in-place updates are the functional updates written here.
\<close>

definition mp_parse :: "string \<Rightarrow> EventRecord" where
  "mp_parse url =
     \<lparr> products = mp_products url, impressions = Some (mp_impressions url),
       promos = Some (mp_promos url), params = Some (mp_params url), event = None \<rparr>"

definition isUaLegacyHit :: "string \<Rightarrow> bool" where
  "isUaLegacyHit url = regex_test UA_LEGACY_REGEX url"

definition isUaGa4Hit :: "string \<Rightarrow> bool" where
  "isUaGa4Hit url = regex_test UA_GA4_REGEX url"

section \<open>The recommendation renderer (\<^verbatim>\<open>schema_recommend.js\<close>)\<close>

text \<open>
  \<^verbatim>\<open>for (k in obj)\<close> visits the array-index keys in ascending numeric order and then the
  other keys in insertion order.
\<close>

definition is_index :: "string \<Rightarrow> bool" where
  "is_index k = (case index_of k of None \<Rightarrow> False | Some i \<Rightarrow> True)"

definition index_value :: "string \<Rightarrow> nat" where
  "index_value k = (case index_of k of None \<Rightarrow> 0 | Some i \<Rightarrow> i)"

definition for_in :: "product \<Rightarrow> (string \<times> string) list" where
  "for_in obj =
     sort_key (\<lambda>kv. index_value (fst kv)) (filter (\<lambda>kv. is_index (fst kv)) obj)
     @ filter (\<lambda>kv. \<not> is_index (fst kv)) obj"

text \<open>
  The \<^verbatim>\<open>length\<close> of an array that was only assigned by key: one more than its greatest
  array index, and \<open>0\<close> when no key is an array index.
\<close>

definition array_length :: "(string \<times> 'a) list \<Rightarrow> nat" where
  "array_length arr =
     foldl (\<lambda>n kv. case index_of (fst kv) of None \<Rightarrow> n | Some i \<Rightarrow> max n (Suc i)) 0 arr"

definition sq :: string where
  "sq = [CHR 0x27]"

text \<open>
  Both \<^verbatim>\<open>for ... in\<close> loops guard each pass with \<^verbatim>\<open>obj.hasOwnProperty(k)\<close>. The call
  reaches the method inherited from \<^verbatim>\<open>Object.prototype\<close>, which answers \<^verbatim>\<open>true\<close> for
  every key the loop visits, unless the object has an own property named
  \<^verbatim>\<open>hasOwnProperty\<close>: its value is a string, and calling a string throws a TypeError.
  \<open>for_in_lines line obj kvs str\<close> is the loop over the keys still to visit, appending
  one line for each to \<open>str\<close>.
\<close>

definition shadows_hasOwnProperty :: "product \<Rightarrow> bool" where
  "shadows_hasOwnProperty obj =
     (case map_of obj ''hasOwnProperty'' of None \<Rightarrow> False | Some v \<Rightarrow> True)"

fun for_in_lines ::
  "(string \<times> string \<Rightarrow> string) \<Rightarrow> product \<Rightarrow> (string \<times> string) list \<Rightarrow> string
     \<Rightarrow> error + string" where
  "for_in_lines line obj [] str = Inr str"
| "for_in_lines line obj (kv # kvs) str =
     (if shadows_hasOwnProperty obj then Inl TypeError
      else for_in_lines line obj kvs (str @ line kv))"

definition param_line :: "string \<times> string \<Rightarrow> string" where
  "param_line kv = ''\<newline>  '' @ sq @ fst kv @ sq @ '': '' @ sq @ snd kv @ sq @ '',''"

definition eventParamsString :: "product option \<Rightarrow> error + string" where
  "eventParamsString ps =
     (case ps of
        None \<Rightarrow> Inr []
      | Some obj \<Rightarrow> for_in_lines param_line obj (for_in obj) [])"

text \<open>
  One pass of the items loop for \<^verbatim>\<open>products[i]\<close>: the opening line, one line for each
  field, the closing line. At an index that holds no product \<^verbatim>\<open>product\<close> is
  \<^verbatim>\<open>undefined\<close>, the \<^verbatim>\<open>for ... in\<close> over it has no pass, and the opening and closing
  lines are still appended.
\<close>

definition field_line :: "string \<times> string \<Rightarrow> string" where
  "field_line kv = ''      '' @ sq @ fst kv @ '': '' @ sq @ snd kv @ sq @ '',\<newline>''"

definition item_block :: "product option \<Rightarrow> error + string" where
  "item_block product =
     (case product of
        None \<Rightarrow> Inr (''    {\<newline>'' @ ''    },\<newline>'')
      | Some obj \<Rightarrow>
          (case for_in_lines field_line obj (for_in obj) ''    {\<newline>'' of
             Inl e \<Rightarrow> Inl e
           | Inr str \<Rightarrow> Inr (str @ ''    },\<newline>'')))"

function items_string_loop :: "(string \<times> product) list \<Rightarrow> nat \<Rightarrow> string \<Rightarrow> error + string" where
  "items_string_loop prods i itemsString =
     (if i < array_length prods
      then (case item_block (map_of prods (dec i)) of
              Inl e \<Rightarrow> Inl e
            | Inr block \<Rightarrow> items_string_loop prods (Suc i) (itemsString @ block))
      else Inr itemsString)"
  by pat_completeness auto
termination
  by (relation "measure (\<lambda>(prods, i, str). array_length prods - i)") auto

declare items_string_loop.simps [simp del]

definition event_text :: "string option \<Rightarrow> string" where
  "event_text e = (case e of None \<Rightarrow> ''undefined'' | Some n \<Rightarrow> n)"

text \<open>
  \<^verbatim>\<open>buildGa4GtagCommand\<close>: the parameter loop, then the items loop, then the command text.
  The result is \<open>Inl TypeError\<close> when one of the loops throws. The bound an engine puts on
  the length of a string is not modelled.
\<close>

definition buildGa4GtagCommand :: "EventRecord \<Rightarrow> error + string" where
  "buildGa4GtagCommand parsedHitData =
     (case eventParamsString (params parsedHitData) of
        Inl e \<Rightarrow> Inl e
      | Inr paramsString \<Rightarrow>
          (case items_string_loop (products parsedHitData) 1 [] of
             Inl e \<Rightarrow> Inl e
           | Inr itemsString \<Rightarrow>
               Inr (''gtag('event', '' @ sq @ event_text (event parsedHitData) @ sq @ '', {''
                    @ paramsString
                    @ (if itemsString \<noteq> []
                       then ''\<newline>  'items': [\<newline>'' @ itemsString @ ''  ],\<newline>''
                       else ''\<newline>'')
                    @ ''});'')))"

section \<open>The precedence chain of the structured push, in the words of the specification\<close>

text \<open>
  The action sub-objects in their fixed order, the first present one, and the chain:
  strong unified markers, then the first present action object, then the impressions
  fallback. Here a key counts as present when the value read under it is truthy, which
  is the test the source performs (\<^verbatim>\<open>if (o["k"])\<close>).
\<close>

definition action_names :: "string list" where
  "action_names = [''detail'', ''click'', ''add'', ''remove'', ''purchase'', ''refund'',
                   ''checkout'', ''checkoutStep'', ''promoView'', ''promoClick'']"

definition first_present_action :: "jsval \<Rightarrow> jsval option" where
  "first_present_action e = find truthy (map (js_prop e) action_names)"

definition impressions_fallback :: "jsval \<Rightarrow> KnownSchema" where
  "impressions_fallback e = (if has e ''impressions'' then GTM_UA else UNKNOWN)"

definition precedence_chain :: "jsval \<Rightarrow> KnownSchema" where
  "precedence_chain e =
     (if has e ''items'' \<or> has e ''transaction_id'' \<or> has e ''value'' then GTM_LEGACY_GA4
      else
        (case first_present_action e of
           Some a \<Rightarrow>
             (if has a ''actionField'' \<or> has a ''products'' \<or> has a ''promotions'' then GTM_UA
              else if has a ''items'' then GTM_LEGACY_GA4
              else impressions_fallback e)
         | None \<Rightarrow> impressions_fallback e))"

section \<open>The encoding of product payloads, in the words of the specification\<close>

text \<open>
  The encoding the decoder undoes, in the words of the specification: a product payload
  is the list of its fields joined by \<^verbatim>\<open>~\<close>, each field being its two-character code
  followed by its value, in which every literal \<^verbatim>\<open>~\<close> is written \<^verbatim>\<open>~~\<close> (so that
  \<^verbatim>\<open>Foo~Bar\<close> under the code \<^verbatim>\<open>nm\<close> becomes \<^verbatim>\<open>nmFoo~~Bar\<close>, which splits into \<^verbatim>\<open>nmFoo\<close>,
  the empty part and \<^verbatim>\<open>Bar\<close>). A field is well coded when its code has two characters,
  none of them a tilde.
\<close>

fun tilde_escape :: "string \<Rightarrow> string" where
  "tilde_escape [] = []"
| "tilde_escape (c # cs) =
     (if c = CHR ''~'' then ''~~'' @ tilde_escape cs else c # tilde_escape cs)"

fun encode_payload :: "(string \<times> string) list \<Rightarrow> string" where
  "encode_payload [] = []"
| "encode_payload [f] = fst f @ tilde_escape (snd f)"
| "encode_payload (f # g # fs) = fst f @ tilde_escape (snd f) @ ''~'' @ encode_payload (g # fs)"

definition well_coded :: "string \<times> string \<Rightarrow> bool" where
  "well_coded f = (length (fst f) = 2 \<and> CHR ''~'' \<notin> set (fst f))"

text \<open>What follows an escaped value in a payload: nothing, or a separator and a next field.\<close>

definition follow :: "string \<Rightarrow> bool" where
  "follow R = (R = [] \<or> (hd R = CHR ''~'' \<and> tl R \<noteq> [] \<and> hd (tl R) \<noteq> CHR ''~''))"

section \<open>The text of the recommendation, in the words of the specification\<close>

text \<open>
  The line of each parameter, and the object literal of a product: an opening line, the
  line of each field, a closing line; the empty literal where no product is stored.
  \<open>calls_inherited obj\<close> says that \<^verbatim>\<open>obj.hasOwnProperty\<close> is the inherited method (or that
  there is no object to call it on).
\<close>

definition params_text :: "product option \<Rightarrow> string" where
  "params_text ps = (case ps of None \<Rightarrow> [] | Some obj \<Rightarrow> concat (map param_line (for_in obj)))"

definition object_literal :: "product option \<Rightarrow> string" where
  "object_literal product =
     ''    {\<newline>''
     @ (case product of None \<Rightarrow> [] | Some obj \<Rightarrow> concat (map field_line (for_in obj)))
     @ ''    },\<newline>''"

definition calls_inherited :: "product option \<Rightarrow> bool" where
  "calls_inherited product =
     (case product of None \<Rightarrow> True | Some obj \<Rightarrow> map_of obj ''hasOwnProperty'' = None)"

section \<open>Observations on decoded records\<close>

text \<open>
  Observations on a decoded record: the value of field \<open>k\<close> of the entry at an index,
  of an impression of a list, and the name of a list; and which of these a match writes.
\<close>

definition field_at :: "(string \<times> product) list \<Rightarrow> string \<Rightarrow> string \<Rightarrow> string option" where
  "field_at arr index k = (case map_of arr index of None \<Rightarrow> None | Some p \<Rightarrow> map_of p k)"

definition imp_field_at ::
  "(string \<times> ImpressionList) list \<Rightarrow> string \<Rightarrow> string \<Rightarrow> string \<Rightarrow> string option" where
  "imp_field_at imps listIndex index k =
     (case map_of imps listIndex of
        None \<Rightarrow> None
      | Some l \<Rightarrow> field_at (il_impressions l) index k)"

definition list_name_at :: "(string \<times> ImpressionList) list \<Rightarrow> string \<Rightarrow> string option" where
  "list_name_at imps listIndex =
     (case map_of imps listIndex of None \<Rightarrow> None | Some l \<Rightarrow> il_name l)"

definition no_proto :: "(string \<times> string) list \<Rightarrow> bool" where
  "no_proto table = list_all (\<lambda>e. snd e \<noteq> ''__proto__'') table"

definition writes :: "(string \<times> string) list \<Rightarrow> string \<Rightarrow> string \<Rightarrow> string list \<Rightarrow> bool" where
  "writes table index k p = (p ! 1 = index \<and> field_name table (p ! 2 @ p ! 3) = k)"

definition writes_impression :: "string \<Rightarrow> string \<Rightarrow> string \<Rightarrow> string list \<Rightarrow> bool" where
  "writes_impression listIndex index k p =
     (p ! 1 = listIndex \<and> p ! 3 = index \<and> field_name UA_IMPRESSION_FIELDS (p ! 4 @ p ! 5) = k)"

section \<open>Properties of the classifier\<close>

lemma actionObject_first_present:
  "actionObject e =
     (case first_present_action e of Some a \<Rightarrow> a | None \<Rightarrow> js_prop e ''promoClick'')"
  by (simp add: actionObject_def first_present_action_def action_names_def js_or_def)

lemma first_present_action_truthy: "first_present_action e = Some a \<Longrightarrow> truthy a"
  unfolding first_present_action_def by (auto simp: find_Some_iff)

lemma first_present_action_none:
  assumes "first_present_action e = None"
  shows "\<not> truthy (js_prop e ''promoClick'')"
proof -
  have "js_prop e ''promoClick'' \<in> set (map (js_prop e) action_names)"
    by (simp add: action_names_def)
  with assms show ?thesis
    unfolding first_present_action_def find_None_iff by blast
qed

text \<open>
  C1 (the classifier is total and always returns one of the six labels). The source does
  not do this: for the direct call with \<^verbatim>\<open>{transaction_id: "T1"}\<close> the marker test passes,
  \<^verbatim>\<open>items\<close> is \<^verbatim>\<open>undefined\<close>, and \<^verbatim>\<open>items.length\<close> throws a TypeError.
\<close>

theorem identifySchema_throws_without_items:
  "identifySchema GTAG (JObj [(''transaction_id'', JStr ''T1'')]) = Inl TypeError"
  by (simp add: identify_gtag_def has_def obj_lookup_def)

text \<open>
  C3 (a non-empty \<^verbatim>\<open>items\<close> array whose entries match no rule is classified
  \<^verbatim>\<open>gtag-unknown\<close>). The source returns \<^verbatim>\<open>currentSchema\<close>, which is still \<^verbatim>\<open>undefined\<close>:
  for \<^verbatim>\<open>{items: [{}]}\<close> and for \<^verbatim>\<open>{items: [{}, {}]}\<close> the result is no label at all.
\<close>

theorem identifySchema_unclassified_items_undefined:
  "identifySchema GTAG (JObj [(''items'', JArr [JObj []])]) = Inr None
   \<and> identifySchema GTAG (JObj [(''items'', JArr [JObj [], JObj []])]) = Inr None"
  by (simp add: identify_gtag_def has_def obj_lookup_def items_loop.simps
      dec.simps digit_char_def index_of_def is_digit_def nat_of_digits_def digit_value_def
      thisItemSchema_def fold_schema_def)

text \<open>
  C5 (precedence chain of the structured push). The chain is the one the source follows,
  but the source does not ask whether a key is there: it tests the value read under the
  key for truthiness. An \<^verbatim>\<open>ecommerce\<close> object that has \<^verbatim>\<open>value: 0\<close> and nothing else is
  classified \<^verbatim>\<open>unknown\<close>, not \<^verbatim>\<open>ga4-gtm\<close>, and with a \<^verbatim>\<open>purchase\<close> holding \<^verbatim>\<open>products\<close>
  beside \<^verbatim>\<open>value: 0\<close> the result is \<^verbatim>\<open>ua-gtm\<close>.
\<close>

theorem identifySchema_dataLayer_falsy_marker_counterexample:
  "map_of [(''value'', JNum 0)] ''value'' = Some (JNum 0)
   \<and> identifySchema DATA_LAYER (JObj [(''ecommerce'', JObj [(''value'', JNum 0)])])
       = Inr (Some UNKNOWN)
   \<and> identifySchema DATA_LAYER
         (JObj [(''ecommerce'',
            JObj [(''value'', JNum 0), (''purchase'', JObj [(''products'', JArr [])])])])
       = Inr (Some GTM_UA)"
  by (simp add: identify_dataLayer_def actionObject_def js_or_def has_def obj_lookup_def)

text \<open>
  C5 as amended. Read ``has'' and ``present'' as: the value under the key is truthy.
  Whenever the parameter object carries a truthy \<^verbatim>\<open>ecommerce\<close> value, \<^verbatim>\<open>identifySchema\<close>
  returns exactly the label of the chain: \<^verbatim>\<open>ga4-gtm\<close> if \<^verbatim>\<open>items\<close>, \<^verbatim>\<open>transaction_id\<close> or
  \<^verbatim>\<open>value\<close> is truthy, whatever else the object holds; otherwise the first truthy action
  sub-object in the order \<^verbatim>\<open>detail\<close>, \<^verbatim>\<open>click\<close>, \<^verbatim>\<open>add\<close>, \<^verbatim>\<open>remove\<close>, \<^verbatim>\<open>purchase\<close>,
  \<^verbatim>\<open>refund\<close>, \<^verbatim>\<open>checkout\<close>, \<^verbatim>\<open>checkoutStep\<close>, \<^verbatim>\<open>promoView\<close>, \<^verbatim>\<open>promoClick\<close> decides
  (\<^verbatim>\<open>ua-gtm\<close> for a truthy \<^verbatim>\<open>actionField\<close>, \<^verbatim>\<open>products\<close> or \<^verbatim>\<open>promotions\<close>, else \<^verbatim>\<open>ga4-gtm\<close>
  for truthy \<^verbatim>\<open>items\<close>); otherwise a truthy \<^verbatim>\<open>impressions\<close> gives \<^verbatim>\<open>ua-gtm\<close>; otherwise
  \<^verbatim>\<open>unknown\<close>.
\<close>

theorem identifySchema_dataLayer_precedence:
  assumes "\<not> nullish paramsObject"
    and "truthy (js_prop paramsObject ''ecommerce'')"
  shows "identifySchema DATA_LAYER paramsObject =
           Inr (Some (precedence_chain (js_prop paramsObject ''ecommerce'')))"
proof (cases "first_present_action (js_prop paramsObject ''ecommerce'')")
  case None
  then show ?thesis
    using assms first_present_action_none [OF None]
    by (simp add: identify_dataLayer_def precedence_chain_def impressions_fallback_def
        actionObject_first_present Let_def)
next
  case (Some a)
  then show ?thesis
    using assms first_present_action_truthy [OF Some]
    by (simp add: identify_dataLayer_def precedence_chain_def impressions_fallback_def
        actionObject_first_present Let_def)
qed

theorem identifySchema_dataLayer_precedence_witness:
  "identifySchema DATA_LAYER
     (JObj [(''ecommerce'',
        JObj [(''detail'', JObj []),
              (''purchase'', JObj [(''products'', JArr [])]),
              (''impressions'', JArr [JObj []])])]) = Inr (Some GTM_UA)
   \<and> identifySchema DATA_LAYER
     (JObj [(''ecommerce'',
        JObj [(''purchase'', JObj [(''items'', JArr [])]),
              (''value'', JStr ''9.99'')])]) = Inr (Some GTM_LEGACY_GA4)"
proof -
  let ?p1 = "JObj [(''ecommerce'',
        JObj [(''detail'', JObj []),
              (''purchase'', JObj [(''products'', JArr [])]),
              (''impressions'', JArr [JObj []])])]"
  let ?p2 = "JObj [(''ecommerce'',
        JObj [(''purchase'', JObj [(''items'', JArr [])]),
              (''value'', JStr ''9.99'')])]"
  have n1: "\<not> nullish ?p1" and n2: "\<not> nullish ?p2" by simp_all
  have t1: "truthy (js_prop ?p1 ''ecommerce'')" and t2: "truthy (js_prop ?p2 ''ecommerce'')"
    by (simp_all add: obj_lookup_def)
  have c1: "precedence_chain (js_prop ?p1 ''ecommerce'') = GTM_UA"
    by (simp add: precedence_chain_def first_present_action_def action_names_def
        impressions_fallback_def has_def obj_lookup_def)
  have c2: "precedence_chain (js_prop ?p2 ''ecommerce'') = GTM_LEGACY_GA4"
    by (simp add: precedence_chain_def first_present_action_def action_names_def
        impressions_fallback_def has_def obj_lookup_def)
  show ?thesis
    using identifySchema_dataLayer_precedence [OF n1 t1]
      identifySchema_dataLayer_precedence [OF n2 t2]
    unfolding c1 c2 by (rule conjI)
qed

section \<open>Properties of the matcher\<close>

lemma regex_test_iff: "regex_test re s \<longleftrightarrow> (\<exists>a b. s = a @ b \<and> rmatch re b \<noteq> None)"
proof (induction s)
  case Nil
  then show ?case by (auto split: option.splits)
next
  case (Cons x xs)
  show ?case
  proof (cases "rmatch re (x # xs)")
    case None
    have "(\<exists>a b. x # xs = a @ b \<and> rmatch re b \<noteq> None)
          \<longleftrightarrow> (\<exists>a b. xs = a @ b \<and> rmatch re b \<noteq> None)"
    proof
      assume "\<exists>a b. x # xs = a @ b \<and> rmatch re b \<noteq> None"
      then obtain a b where ab: "x # xs = a @ b" "rmatch re b \<noteq> None" by blast
      with None have "a \<noteq> []" by auto
      then obtain a' where "a = x # a'" using ab(1) by (cases a) auto
      with ab show "\<exists>a b. xs = a @ b \<and> rmatch re b \<noteq> None" by auto
    next
      assume "\<exists>a b. xs = a @ b \<and> rmatch re b \<noteq> None"
      then obtain a b where "xs = a @ b" "rmatch re b \<noteq> None" by blast
      then have "x # xs = (x # a) @ b \<and> rmatch re b \<noteq> None" by simp
      then show "\<exists>a b. x # xs = a @ b \<and> rmatch re b \<noteq> None" by blast
    qed
    with None Cons show ?thesis by simp
  next
    case (Some m)
    then have "x # xs = [] @ (x # xs) \<and> rmatch re (x # xs) \<noteq> None" by simp
    then have "\<exists>a b. x # xs = a @ b \<and> rmatch re b \<noteq> None" by blast
    with Some show ?thesis by simp
  qed
qed

lemma matchAll_no_match: "\<not> regex_test re s \<Longrightarrow> matchAll re s = []"
  by (induction s) (auto split: option.splits)

lemma matchAll_skip:
  "(\<And>a b. pre = a @ b \<Longrightarrow> b \<noteq> [] \<Longrightarrow> rmatch re (b @ s) = None)
     \<Longrightarrow> matchAll re (pre @ s) = matchAll re s"
proof (induction pre)
  case Nil
  then show ?case by simp
next
  case (Cons x pre)
  have "rmatch re ((x # pre) @ s) = None"
    using Cons.prems [of "[]" "x # pre"] by simp
  moreover have "matchAll re (pre @ s) = matchAll re s"
  proof (rule Cons.IH)
    fix a b assume "pre = a @ b" "b \<noteq> []"
    then show "rmatch re (b @ s) = None"
      using Cons.prems [of "x # a" b] by simp
  qed
  ultimately show ?case by simp
qed

lemma rmatch_Star_only: "rmatch [Star c] s = Some ([takeWhile c s], dropWhile c s)"
  by (induction s) (auto simp: took_def took_more_def)

lemma rmatch_Lit_Star:
  "rmatch [Lit l, Star c] s =
     (if prefix l s then Some ([l, takeWhile c (drop (length l) s)],
                               dropWhile c (drop (length l) s)) else None)"
  by (simp add: rmatch_Star_only took_def)

lemma star_matches:
  "list_all c m \<Longrightarrow> rmatch r s \<noteq> None \<Longrightarrow> rmatch (Star c # r) (m @ s) \<noteq> None"
proof (induction m)
  case Nil
  then show ?case by (cases s) (auto split: option.splits)
next
  case (Cons x m)
  then show ?case by (auto split: option.splits)
qed

lemma regex_test_Lit: "regex_test [Lit l] s \<longleftrightarrow> sublist l s"
  unfolding regex_test_iff sublist_def by (auto simp: prefix_def)

section \<open>Recognition predicates\<close>

text \<open>
  C10 (the recognition predicates overlap). A URL recognised as a Protocol-A hit contains
  \<^verbatim>\<open>/collect?\<close>, the path both Protocol-B predicates look for. A URL that holds
  \<^verbatim>\<open>/g/collect?\<close> and, after it, \<^verbatim>\<open>&el=GTM\<close> is accepted by \<^verbatim>\<open>isGa4Hit\<close> and by
  \<^verbatim>\<open>isUaLegacyHit\<close>; with \<^verbatim>\<open>&el=GA4\<close> it is accepted by \<^verbatim>\<open>isGa4Hit\<close> and by
  \<^verbatim>\<open>isUaGa4Hit\<close>; and some URL is accepted by all three. The text \<open>m\<close> between the path
  and the label is free of line breaks, as the text of a URL is: the dot of
  \<^verbatim>\<open>/collect\?.*&el=GTM\<close> does not cross a line terminator.
\<close>

theorem recognition_predicates_overlap:
  "(isGa4Hit url \<longrightarrow> sublist ''/collect?'' url)
   \<and> (list_all dot m \<longrightarrow>
        isGa4Hit (a @ ''/g/collect?'' @ m @ ''&el=GTM'' @ b)
      \<and> isUaLegacyHit (a @ ''/g/collect?'' @ m @ ''&el=GTM'' @ b))
   \<and> (list_all dot m \<longrightarrow>
        isGa4Hit (a @ ''/g/collect?'' @ m @ ''&el=GA4'' @ b)
      \<and> isUaGa4Hit (a @ ''/g/collect?'' @ m @ ''&el=GA4'' @ b))
   \<and> (\<exists>u. isGa4Hit u \<and> isUaLegacyHit u \<and> isUaGa4Hit u)"
proof (intro conjI impI)
  assume "isGa4Hit url"
  then have "sublist ''/g/collect?'' url"
    by (simp add: isGa4Hit_def GA4_URL_REGEX_def regex_test_Lit)
  then obtain x y where "url = x @ ''/g/collect?'' @ y" unfolding sublist_def by blast
  then have "url = (x @ ''/g'') @ ''/collect?'' @ y" by simp
  then show "sublist ''/collect?'' url" unfolding sublist_def by blast
next
  show "isGa4Hit (a @ ''/g/collect?'' @ m @ ''&el=GTM'' @ b)"
    by (simp only: isGa4Hit_def GA4_URL_REGEX_def regex_test_Lit sublist_appendI)
  show "isGa4Hit (a @ ''/g/collect?'' @ m @ ''&el=GA4'' @ b)"
    by (simp only: isGa4Hit_def GA4_URL_REGEX_def regex_test_Lit sublist_appendI)
next
  assume m: "list_all dot m"
  have "rmatch [Lit ''&el=GTM''] (''&el=GTM'' @ b) \<noteq> None" by simp
  from star_matches [OF m this]
  have "rmatch UA_LEGACY_REGEX (''/collect?'' @ m @ ''&el=GTM'' @ b) \<noteq> None"
    by (simp add: UA_LEGACY_REGEX_def)
  moreover have "a @ ''/g/collect?'' @ m @ ''&el=GTM'' @ b
                 = (a @ ''/g'') @ (''/collect?'' @ m @ ''&el=GTM'' @ b)" by simp
  ultimately show "isUaLegacyHit (a @ ''/g/collect?'' @ m @ ''&el=GTM'' @ b)"
    unfolding isUaLegacyHit_def regex_test_iff by blast
next
  assume m: "list_all dot m"
  have "rmatch [Lit ''&el=GA4''] (''&el=GA4'' @ b) \<noteq> None" by simp
  from star_matches [OF m this]
  have "rmatch UA_GA4_REGEX (''/collect?'' @ m @ ''&el=GA4'' @ b) \<noteq> None"
    by (simp add: UA_GA4_REGEX_def)
  moreover have "a @ ''/g/collect?'' @ m @ ''&el=GA4'' @ b
                 = (a @ ''/g'') @ (''/collect?'' @ m @ ''&el=GA4'' @ b)" by simp
  ultimately show "isUaGa4Hit (a @ ''/g/collect?'' @ m @ ''&el=GA4'' @ b)"
    unfolding isUaGa4Hit_def regex_test_iff by blast
next
  let ?u = "''https://x/g/collect?v=2&el=GTM&el=GA4''"
  have "isGa4Hit ?u"
    by (simp add: isGa4Hit_def GA4_URL_REGEX_def)
  moreover have "isUaLegacyHit ?u"
    by (simp add: isUaLegacyHit_def UA_LEGACY_REGEX_def dot_def took_def took_more_def)
  moreover have "isUaGa4Hit ?u"
    by (simp add: isUaGa4Hit_def UA_GA4_REGEX_def dot_def took_def took_more_def)
  ultimately show "\<exists>u. isGa4Hit u \<and> isUaLegacyHit u \<and> isUaGa4Hit u" by blast
qed

theorem recognition_predicates_overlap_witness:
  "list_all dot ''v=2''
   \<and> isGa4Hit ''https://x/g/collect?v=2&el=GTM''
   \<and> isUaLegacyHit ''https://x/g/collect?v=2&el=GTM''
   \<and> isGa4Hit ''https://x/g/collect?v=2&el=GA4&t=event''
   \<and> isUaGa4Hit ''https://x/g/collect?v=2&el=GA4&t=event''"
proof -
  have d: "list_all dot ''v=2''" by (simp add: dot_def)
  show ?thesis
    using d
      recognition_predicates_overlap [of "[]" "''v=2''" "''https://x''" "[]", THEN conjunct2,
        THEN conjunct1]
      recognition_predicates_overlap [of "[]" "''v=2''" "''https://x''" "''&t=event''",
        THEN conjunct2, THEN conjunct2, THEN conjunct1]
    by simp
qed

section \<open>Protocol-A event name\<close>

lemma no_en_in_prefix:
  assumes "\<not> sublist ''&en='' pre" and "pre = a @ b" and "b \<noteq> []"
  shows "\<not> prefix ''&en='' (b @ ''&en='' @ t)"
proof
  assume p: "prefix ''&en='' (b @ ''&en='' @ t)"
  have "prefix ''&en='' b"
  proof (cases b)
    case Nil
    with assms(3) show ?thesis by simp
  next
    case b1: (Cons x1 b1)
    show ?thesis
    proof (cases b1)
      case Nil
      with p b1 show ?thesis by simp
    next
      case b2: (Cons x2 b2)
      show ?thesis
      proof (cases b2)
        case Nil
        with p b1 b2 show ?thesis by simp
      next
        case b3: (Cons x3 b3)
        show ?thesis
        proof (cases b3)
          case Nil
          with p b1 b2 b3 show ?thesis by simp
        next
          case (Cons x4 b4)
          with p b1 b2 b3 show ?thesis by simp
        qed
      qed
    qed
  qed
  then obtain c where "b = ''&en='' @ c" unfolding prefix_def by blast
  with assms(2) have "pre = a @ ''&en='' @ c" by simp
  then have "sublist ''&en='' pre" unfolding sublist_def by blast
  with assms(1) show False by simp
qed

lemma takeWhile_value:
  assumes "list_all not_amp v" and "rest = [] \<or> hd rest = CHR ''&''"
  shows "takeWhile not_amp (v @ rest) = v"
proof -
  have "takeWhile not_amp rest = []"
    using assms(2) by (cases rest) (auto simp: not_amp_def)
  moreover have "\<forall>x\<in>set v. not_amp x" using assms(1) by (simp add: list_all_iff)
  ultimately show ?thesis by (simp add: takeWhile_append2)
qed

text \<open>
  C9 (the event name is the first \<^verbatim>\<open>&en=\<close> value). When \<^verbatim>\<open>&en=\<close> occurs in the URL, its
  first occurrence being the one after \<open>pre\<close>, and \<open>v\<close> is the value written there (it
  runs up to the next \<^verbatim>\<open>&\<close> or the end of the URL), the decoded event is \<open>v\<close>, whatever
  follows, further \<^verbatim>\<open>&en=\<close> parameters included. When \<^verbatim>\<open>&en=\<close> does not occur, the event
  is left unset.
\<close>

theorem ga4_event_first_match:
  "(\<not> sublist ''&en='' pre \<and> list_all not_amp v \<and> (rest = [] \<or> hd rest = CHR ''&'')
      \<longrightarrow> event (ga4_parse (pre @ ''&en='' @ v @ rest)) = Some v)
   \<and> (\<not> sublist ''&en='' url \<longrightarrow> event (ga4_parse url) = None)"
proof (intro conjI impI)
  assume h: "\<not> sublist ''&en='' pre \<and> list_all not_amp v \<and> (rest = [] \<or> hd rest = CHR ''&'')"
  have skip: "matchAll GA4_EVENT_NAME_REGEX (pre @ ''&en='' @ v @ rest)
              = matchAll GA4_EVENT_NAME_REGEX (''&en='' @ v @ rest)"
  proof (rule matchAll_skip)
    fix a b assume "pre = a @ b" "b \<noteq> []"
    with h have "\<not> prefix ''&en='' (b @ ''&en='' @ v @ rest)"
      using no_en_in_prefix by blast
    then show "rmatch GA4_EVENT_NAME_REGEX (b @ ''&en='' @ v @ rest) = None"
      unfolding GA4_EVENT_NAME_REGEX_def rmatch_Lit_Star by simp
  qed
  have m: "rmatch GA4_EVENT_NAME_REGEX (''&en='' @ v @ rest)
           = Some ([''&en='', v], dropWhile not_amp (v @ rest))"
    unfolding GA4_EVENT_NAME_REGEX_def rmatch_Lit_Star
    using h by (simp add: takeWhile_value)
  have "\<exists>ms. matchAll GA4_EVENT_NAME_REGEX (''&en='' @ v @ rest) = [''&en='', v] # ms"
    using m by simp
  then show "event (ga4_parse (pre @ ''&en='' @ v @ rest)) = Some v"
    unfolding ga4_parse_def ga4_event_def skip by auto
next
  assume "\<not> sublist ''&en='' url"
  then have "\<not> regex_test GA4_EVENT_NAME_REGEX url"
    unfolding regex_test_iff GA4_EVENT_NAME_REGEX_def rmatch_Lit_Star sublist_def
    by (auto simp: prefix_def)
  then show "event (ga4_parse url) = None"
    by (simp add: ga4_parse_def ga4_event_def matchAll_no_match)
qed

theorem ga4_event_first_match_witness:
  "event (ga4_parse ''https://x/g/collect?v=2&en=purchase&pr1=idX&en=second'') = Some ''purchase''
   \<and> event (ga4_parse ''https://x/g/collect?v=2&pr1=idX'') = None"
proof -
  have s1: "\<not> sublist ''&en='' ''https://x/g/collect?v=2''"
    by (simp add: sublist_Cons_right)
  have s2: "\<not> sublist ''&en='' ''https://x/g/collect?v=2&pr1=idX''"
    by (simp add: sublist_Cons_right)
  have v: "list_all not_amp ''purchase''" by (simp add: not_amp_def)
  have r: "''&pr1=idX&en=second'' = [] \<or> hd ''&pr1=idX&en=second'' = CHR ''&''" by simp
  show ?thesis
    using ga4_event_first_match [of "''https://x/g/collect?v=2''" "''purchase''"
        "''&pr1=idX&en=second''" "''https://x/g/collect?v=2&pr1=idX''"] s1 s2 v r
    by simp
qed

section \<open>Strings without any recognised parameter\<close>

lemma no_amp_no_match:
  assumes "CHR ''&'' \<notin> set url"
  shows "\<not> regex_test (Lit (CHR ''&'' # l) # r) url"
proof -
  have "rmatch (Lit (CHR ''&'' # l) # r) b = None" if "url = a @ b" for a b
  proof -
    from that assms have "CHR ''&'' \<notin> set b" by simp
    then have "\<not> prefix (CHR ''&'' # l) b" by (cases b) auto
    then show ?thesis by simp
  qed
  then have "\<not> (\<exists>a b. url = a @ b \<and> rmatch (Lit (CHR ''&'' # l) # r) b \<noteq> None)"
    by simp
  then show ?thesis by (simp add: regex_test_iff)
qed

text \<open>
  C8 (the decoders are total, and a string with none of the recognised patterns decodes
  to an empty record). Both decoders are total functions from strings to event records:
  no step of either \<^verbatim>\<open>parse\<close> can throw on a string, so the model has no error branch.
  A string in which none of the three expressions of \<^verbatim>\<open>ga4.js\<close> matches anywhere decodes
  to a record with no product, no parameter and no event name; a string in which none of
  the five expressions of \<^verbatim>\<open>measurement_protocol.js\<close> matches anywhere decodes to a record
  with no product, impression list, promotion or parameter.
\<close>

theorem decoders_empty_on_no_pattern:
  "(\<not> regex_test GA4_PRODUCT_REGEX url \<and> \<not> regex_test GA4_PARAM_REGEX url
      \<and> \<not> regex_test GA4_EVENT_NAME_REGEX url
      \<longrightarrow> ga4_parse url
          = \<lparr> products = [], impressions = None, promos = None, params = Some [],
              event = None \<rparr>)
   \<and> (\<not> regex_test UA_PRODUCT_REGEX url \<and> \<not> regex_test UA_LIST_NAME_REGEX url
      \<and> \<not> regex_test UA_IMPRESSION_REGEX url \<and> \<not> regex_test UA_PROMO_REGEX url
      \<and> \<not> regex_test UA_PARAMS_REGEX url
      \<longrightarrow> mp_parse url
          = \<lparr> products = [], impressions = Some [], promos = Some [], params = Some [],
              event = None \<rparr>)"
proof (intro conjI impI)
  assume h: "\<not> regex_test GA4_PRODUCT_REGEX url \<and> \<not> regex_test GA4_PARAM_REGEX url
      \<and> \<not> regex_test GA4_EVENT_NAME_REGEX url"
  then have "matchAll GA4_PRODUCT_REGEX url = []" "matchAll GA4_PARAM_REGEX url = []"
    "matchAll GA4_EVENT_NAME_REGEX url = []"
    by (auto intro: matchAll_no_match)
  then show "ga4_parse url
          = \<lparr> products = [], impressions = None, promos = None, params = Some [],
              event = None \<rparr>"
    by (simp add: ga4_parse_def ga4_products_def ga4_params_def ga4_event_def)
next
  assume h: "\<not> regex_test UA_PRODUCT_REGEX url \<and> \<not> regex_test UA_LIST_NAME_REGEX url
      \<and> \<not> regex_test UA_IMPRESSION_REGEX url \<and> \<not> regex_test UA_PROMO_REGEX url
      \<and> \<not> regex_test UA_PARAMS_REGEX url"
  then have "matchAll UA_PRODUCT_REGEX url = []" "matchAll UA_LIST_NAME_REGEX url = []"
    "matchAll UA_IMPRESSION_REGEX url = []" "matchAll UA_PROMO_REGEX url = []"
    "matchAll UA_PARAMS_REGEX url = []"
    by (auto intro: matchAll_no_match)
  then show "mp_parse url
          = \<lparr> products = [], impressions = Some [], promos = Some [], params = Some [],
              event = None \<rparr>"
    by (simp add: mp_parse_def mp_products_def mp_list_names_def mp_impressions_def
        mp_promos_def mp_params_def)
qed

theorem decoders_empty_on_no_pattern_witness:
  "ga4_parse ''https://example.com/g/collect?v=2''
     = \<lparr> products = [], impressions = None, promos = None, params = Some [], event = None \<rparr>
   \<and> mp_parse ''not a url at all''
     = \<lparr> products = [], impressions = Some [], promos = Some [], params = Some [],
         event = None \<rparr>"
proof -
  let ?a = "''https://example.com/g/collect?v=2''"
  let ?b = "''not a url at all''"
  have a: "CHR ''&'' \<notin> set ?a" by simp
  have b: "CHR ''&'' \<notin> set ?b" by simp
  have ga: "\<not> regex_test GA4_PRODUCT_REGEX ?a \<and> \<not> regex_test GA4_PARAM_REGEX ?a
      \<and> \<not> regex_test GA4_EVENT_NAME_REGEX ?a"
    unfolding GA4_PRODUCT_REGEX_def GA4_PARAM_REGEX_def GA4_EVENT_NAME_REGEX_def
    by (intro conjI) (rule no_amp_no_match [OF a])+
  have gb: "\<not> regex_test UA_PRODUCT_REGEX ?b \<and> \<not> regex_test UA_LIST_NAME_REGEX ?b
      \<and> \<not> regex_test UA_IMPRESSION_REGEX ?b \<and> \<not> regex_test UA_PROMO_REGEX ?b
      \<and> \<not> regex_test UA_PARAMS_REGEX ?b"
    unfolding UA_PRODUCT_REGEX_def UA_LIST_NAME_REGEX_def UA_IMPRESSION_REGEX_def
      UA_PROMO_REGEX_def UA_PARAMS_REGEX_def
    by (intro conjI) (rule no_amp_no_match [OF b])+
  show ?thesis
    using decoders_empty_on_no_pattern [of ?a, THEN conjunct1, rule_format, OF ga]
      decoders_empty_on_no_pattern [of ?b, THEN conjunct2, rule_format, OF gb]
    by (rule conjI)
qed

section \<open>Loops that store fields\<close>

lemma foldl_unwritten:
  assumes "\<And>a x. \<not> wr x \<Longrightarrow> look (step a x) = look a"
    and "list_all (\<lambda>x. \<not> wr x) xs"
  shows "look (foldl step a xs) = look a"
  using assms(2) by (induction xs arbitrary: a) (simp_all add: assms(1))

lemma foldl_last_write:
  assumes "\<And>a x. \<not> wr x \<Longrightarrow> look (step a x) = look a"
    and "list_all (\<lambda>x. \<not> wr x) xs2"
  shows "look (foldl step a (xs1 @ x # xs2)) = look (step (foldl step a xs1) x)"
  using foldl_unwritten [of wr look step xs2 "step (foldl step a xs1) x"] assms by simp

lemma foldl_last_writer:
  assumes "\<And>a x. look (step a x) = (if wr x then Some (vl x) else look a)"
    and "look a = None"
  shows "look (foldl step a xs)
         = (case find wr (rev xs) of None \<Rightarrow> None | Some x \<Rightarrow> Some (vl x))"
  by (induction xs rule: rev_induct) (simp_all add: assms)

lemma ga4_products_last_match:
  assumes "matchAll GA4_PRODUCT_REGEX url = ms1 @ p # ms2"
    and "list_all (\<lambda>q. q ! 1 \<noteq> p ! 1) ms2"
  shows "map_of (ga4_products url) (p ! 1) = Some (parse_product (p ! 3))"
proof -
  have "map_of (foldl ga4_product_step [] (ms1 @ p # ms2)) (p ! 1)
        = map_of (ga4_product_step (foldl ga4_product_step [] ms1) p) (p ! 1)"
    by (rule foldl_last_write [where wr = "\<lambda>q. q ! 1 = p ! 1"
          and look = "\<lambda>arr. map_of arr (p ! 1)" and step = ga4_product_step])
       (use assms in \<open>simp_all add: ga4_product_step_def update_conv'\<close>)
  with assms show ?thesis
    by (simp add: ga4_products_def ga4_product_step_def update_conv')
qed

section \<open>Tilde escaping in Protocol-A product payloads\<close>

lemma split_on_not_Nil: "split_on c s \<noteq> []"
  by (induction s) auto

lemma split_on_hd_tl: "split_on c s = hd (split_on c s) # tl (split_on c s)"
  using split_on_not_Nil [of c s] by simp

lemma split_on_prefix:
  "c \<notin> set a \<Longrightarrow> split_on c (a @ s) = (a @ hd (split_on c s)) # tl (split_on c s)"
  by (induction a) (auto simp: split_on_not_Nil)

lemma split_on_first_nonempty:
  "s \<noteq> [] \<Longrightarrow> hd s \<noteq> c \<Longrightarrow> hd (split_on c s) \<noteq> []"
  by (cases s) auto

lemma merge_tilde_stop: "p \<noteq> [] \<Longrightarrow> merge_tilde a (p # ps) = (a, p # ps)"
  by (cases ps) auto

lemma merge_tilde_skip:
  "merge_tilde a ([] # split_on c s) = merge_tilde (a @ ''~'' @ hd (split_on c s)) (tl (split_on c s))"
proof -
  have "merge_tilde a ([] # hd (split_on c s) # tl (split_on c s))
        = merge_tilde (a @ ''~'' @ hd (split_on c s)) (tl (split_on c s))" by simp
  then show ?thesis using split_on_hd_tl [of c s] by simp
qed

lemma merge_tilde_escaped:
  assumes "follow R"
  shows "merge_tilde (P @ hd (split_on CHR ''~'' (tilde_escape v @ R)))
           (tl (split_on CHR ''~'' (tilde_escape v @ R)))
         = (P @ v, if R = [] then [] else split_on CHR ''~'' (tl R))"
proof (induction v arbitrary: P)
  case Nil
  show ?case
  proof (cases R)
    case Nil
    then show ?thesis by simp
  next
    case (Cons r R')
    with assms have r: "r = CHR ''~''" and R': "R' \<noteq> []" "hd R' \<noteq> CHR ''~''"
      by (auto simp: follow_def)
    have ne: "hd (split_on CHR ''~'' R') \<noteq> []"
      using split_on_first_nonempty [OF R'] .
    have "merge_tilde P (split_on CHR ''~'' R') = (P, split_on CHR ''~'' R')"
      using merge_tilde_stop [OF ne, of P "tl (split_on CHR ''~'' R')"]
        split_on_hd_tl [of "CHR ''~''" R'] by simp
    with Cons r show ?thesis by simp
  qed
next
  case (Cons c v)
  show ?case
  proof (cases "c = CHR ''~''")
    case True
    have "merge_tilde (P @ hd (split_on CHR ''~'' (tilde_escape (c # v) @ R)))
           (tl (split_on CHR ''~'' (tilde_escape (c # v) @ R)))
          = merge_tilde P ([] # split_on CHR ''~'' (tilde_escape v @ R))"
      using True by simp
    also have "\<dots> = merge_tilde ((P @ ''~'') @ hd (split_on CHR ''~'' (tilde_escape v @ R)))
                       (tl (split_on CHR ''~'' (tilde_escape v @ R)))"
      by (simp add: merge_tilde_skip)
    also have "\<dots> = ((P @ ''~'') @ v, if R = [] then [] else split_on CHR ''~'' (tl R))"
      by (rule Cons.IH)
    finally show ?thesis using True by simp
  next
    case False
    have "merge_tilde (P @ hd (split_on CHR ''~'' (tilde_escape (c # v) @ R)))
           (tl (split_on CHR ''~'' (tilde_escape (c # v) @ R)))
          = merge_tilde ((P @ [c]) @ hd (split_on CHR ''~'' (tilde_escape v @ R)))
                       (tl (split_on CHR ''~'' (tilde_escape v @ R)))"
      using False by (simp add: split_on_not_Nil)
    also have "\<dots> = ((P @ [c]) @ v, if R = [] then [] else split_on CHR ''~'' (tl R))"
      by (rule Cons.IH)
    finally show ?thesis by simp
  qed
qed

lemma encode_payload_head:
  assumes "well_coded g"
  shows "encode_payload (g # fs) \<noteq> [] \<and> hd (encode_payload (g # fs)) \<noteq> CHR ''~''"
proof -
  from assms obtain a b where ab: "fst g = [a, b]" "a \<noteq> CHR ''~''"
    unfolding well_coded_def by (cases "fst g"; cases "tl (fst g)") auto
  then show ?thesis by (cases fs) auto
qed

lemma parts_loop_encoded:
  assumes "fs \<noteq> []" and "list_all well_coded fs"
  shows "parts_loop product (split_on CHR ''~'' (encode_payload fs))
         = foldl (\<lambda>p f. set_field GA4_PRODUCT_FIELDS p (fst f) (snd f)) product fs"
  using assms
proof (induction fs arbitrary: product rule: encode_payload.induct)
  case 1
  then show ?case by simp
next
  case (2 f)
  from "2.prems" have c: "CHR ''~'' \<notin> set (fst f)" "length (fst f) = 2"
    by (simp_all add: well_coded_def)
  have m: "merge_tilde (fst f @ hd (split_on CHR ''~'' (tilde_escape (snd f) @ [])))
             (tl (split_on CHR ''~'' (tilde_escape (snd f) @ [])))
           = (fst f @ snd f, [])"
    using merge_tilde_escaped [of "[]" "fst f" "snd f"] by (simp add: follow_def)
  have "split_on CHR ''~'' (encode_payload [f])
        = (fst f @ hd (split_on CHR ''~'' (tilde_escape (snd f))))
          # tl (split_on CHR ''~'' (tilde_escape (snd f)))"
    using split_on_prefix [OF c(1)] by simp
  then show ?case using m c(2) by simp
next
  case (3 f g fs)
  from "3.prems" have c: "CHR ''~'' \<notin> set (fst f)" "length (fst f) = 2"
    by (simp_all add: well_coded_def)
  from "3.prems" have g: "well_coded g" and rest: "list_all well_coded (g # fs)"
    by simp_all
  let ?R = "''~'' @ encode_payload (g # fs)"
  have fol: "follow ?R"
    using encode_payload_head [OF g, of fs] by (simp add: follow_def)
  have m: "merge_tilde (fst f @ hd (split_on CHR ''~'' (tilde_escape (snd f) @ ?R)))
             (tl (split_on CHR ''~'' (tilde_escape (snd f) @ ?R)))
           = (fst f @ snd f, split_on CHR ''~'' (encode_payload (g # fs)))"
    using merge_tilde_escaped [OF fol, of "fst f" "snd f"] by simp
  have sp: "split_on CHR ''~'' (encode_payload (f # g # fs))
        = (fst f @ hd (split_on CHR ''~'' (tilde_escape (snd f) @ ?R)))
          # tl (split_on CHR ''~'' (tilde_escape (snd f) @ ?R))"
    using split_on_prefix [OF c(1), of "tilde_escape (snd f) @ ?R"] by simp
  have "parts_loop product (split_on CHR ''~'' (encode_payload (f # g # fs)))
        = parts_loop (set_field GA4_PRODUCT_FIELDS product (fst f) (snd f))
            (split_on CHR ''~'' (encode_payload (g # fs)))"
    unfolding sp using m c(2) by simp
  also have "\<dots> = foldl (\<lambda>p f. set_field GA4_PRODUCT_FIELDS p (fst f) (snd f))
                      (set_field GA4_PRODUCT_FIELDS product (fst f) (snd f)) (g # fs)"
    by (rule "3.IH") (use rest in simp_all)
  finally show ?case by simp
qed

lemma update_new_key: "k \<notin> fst ` set al \<Longrightarrow> AList.update k v al = al @ [(k, v)]"
  by (induction al) auto

lemma foldl_update_distinct:
  "distinct (map fst kvs) \<Longrightarrow> fst ` set kvs \<inter> fst ` set acc = {}
     \<Longrightarrow> foldl (\<lambda>p kv. AList.update (fst kv) (snd kv) p) acc kvs = acc @ kvs"
proof (induction kvs arbitrary: acc)
  case Nil
  then show ?case by simp
next
  case (Cons kv kvs)
  have new: "fst kv \<notin> fst ` set acc" using Cons.prems(2) by auto
  have "foldl (\<lambda>p kv. AList.update (fst kv) (snd kv) p) (acc @ [kv]) kvs = (acc @ [kv]) @ kvs"
  proof (rule Cons.IH)
    show "distinct (map fst kvs)" using Cons.prems(1) by simp
    show "fst ` set kvs \<inter> fst ` set (acc @ [kv]) = {}"
      using Cons.prems by auto
  qed
  then show ?case using update_new_key [OF new, of "snd kv"] by simp
qed

lemma GA4_field_name_not_proto: "field_name GA4_PRODUCT_FIELDS c \<noteq> ''__proto__''"
proof (cases "map_of GA4_PRODUCT_FIELDS c")
  case None
  then show ?thesis by (simp add: field_name_def)
next
  case (Some n)
  then have "(c, n) \<in> set GA4_PRODUCT_FIELDS" by (rule map_of_SomeD)
  then have "n \<noteq> ''__proto__''" unfolding GA4_PRODUCT_FIELDS_def by auto
  with Some show ?thesis by (simp add: field_name_def)
qed

lemma foldl_set_field_GA4:
  "foldl (\<lambda>p f. set_field GA4_PRODUCT_FIELDS p (fst f) (snd f)) acc fs
   = foldl (\<lambda>p kv. AList.update (fst kv) (snd kv) p) acc
       (map (\<lambda>f. (field_name GA4_PRODUCT_FIELDS (fst f), snd f)) fs)"
  by (induction fs arbitrary: acc)
     (simp_all add: set_field_def obj_set_def GA4_field_name_not_proto)

text \<open>
  C6 (tilde-escaping round trip). For every non-empty list of well coded fields whose
  codes name distinct fields, decoding the encoded payload gives back exactly the fields:
  each under the name of its code, each with its original value, tildes included,
  wherever they stand in the value; and a \<^verbatim>\<open>&pr<N>=\<close> parameter of a URL that carries
  this payload, and is the last one for its index, puts exactly this product at index
  \<^verbatim>\<open>N\<close> of the decoded record. The witness is the payload \<^verbatim>\<open>id12345~nmFoo~~Bar\<close> of the
  specification.
\<close>

theorem tilde_escaping_roundtrip:
  assumes "fs \<noteq> []" and "list_all well_coded fs"
    and "distinct (map (\<lambda>f. field_name GA4_PRODUCT_FIELDS (fst f)) fs)"
  shows "parse_product (encode_payload fs)
           = map (\<lambda>f. (field_name GA4_PRODUCT_FIELDS (fst f), snd f)) fs
         \<and> (matchAll GA4_PRODUCT_REGEX url = ms1 @ p # ms2 \<and> p ! 3 = encode_payload fs
              \<and> list_all (\<lambda>q. q ! 1 \<noteq> p ! 1) ms2
            \<longrightarrow> map_of (products (ga4_parse url)) (p ! 1)
                = Some (map (\<lambda>f. (field_name GA4_PRODUCT_FIELDS (fst f), snd f)) fs))"
proof -
  let ?kvs = "map (\<lambda>f. (field_name GA4_PRODUCT_FIELDS (fst f), snd f)) fs"
  have d: "distinct (map fst ?kvs)" using assms(3) by (simp add: comp_def)
  have "parse_product (encode_payload fs)
        = foldl (\<lambda>p kv. AList.update (fst kv) (snd kv) p) [] ?kvs"
    unfolding parse_product_def parts_loop_encoded [OF assms(1,2)] foldl_set_field_GA4 ..
  also have "\<dots> = [] @ ?kvs"
    by (rule foldl_update_distinct [OF d]) simp
  finally have payload: "parse_product (encode_payload fs) = ?kvs" by simp
  have "map_of (products (ga4_parse url)) (p ! 1) = Some ?kvs"
    if "matchAll GA4_PRODUCT_REGEX url = ms1 @ p # ms2" and "p ! 3 = encode_payload fs"
      and "list_all (\<lambda>q. q ! 1 \<noteq> p ! 1) ms2"
    using ga4_products_last_match [OF that(1) that(3)] that(2) payload
    by (simp add: ga4_parse_def)
  with payload show ?thesis by blast
qed

lemma roundtrip_example_matches:
  "matchAll GA4_PRODUCT_REGEX ''/g/collect?v=2&pr1=id12345~nmFoo~~Bar''
   = [] @ [''&pr'', ''1'', ''='', ''id12345~nmFoo~~Bar''] # []"
  by (simp add: GA4_PRODUCT_REGEX_def is_digit_def not_amp_def took_def took_more_def)

theorem tilde_escaping_roundtrip_witness:
  "encode_payload [(''id'', ''12345''), (''nm'', ''Foo~Bar'')] = ''id12345~nmFoo~~Bar''
   \<and> parse_product ''id12345~nmFoo~~Bar''
       = [(''item_id'', ''12345''), (''item_name'', ''Foo~Bar'')]
   \<and> map_of (products (ga4_parse ''/g/collect?v=2&pr1=id12345~nmFoo~~Bar'')) ''1''
       = Some [(''item_id'', ''12345''), (''item_name'', ''Foo~Bar'')]"
proof -
  let ?fs = "[(''id'', ''12345''), (''nm'', ''Foo~Bar'')]"
  let ?p = "[''&pr'', ''1'', ''='', ''id12345~nmFoo~~Bar'']"
  have e: "encode_payload ?fs = ''id12345~nmFoo~~Bar''" by simp
  have n: "?fs \<noteq> []" by simp
  have w: "list_all well_coded ?fs" by (simp add: well_coded_def)
  have f: "map (\<lambda>f. (field_name GA4_PRODUCT_FIELDS (fst f), snd f)) ?fs
           = [(''item_id'', ''12345''), (''item_name'', ''Foo~Bar'')]"
    by (simp add: field_name_def GA4_PRODUCT_FIELDS_def)
  have d: "distinct (map (\<lambda>f. field_name GA4_PRODUCT_FIELDS (fst f)) ?fs)"
    by (simp add: field_name_def GA4_PRODUCT_FIELDS_def)
  have h: "matchAll GA4_PRODUCT_REGEX ''/g/collect?v=2&pr1=id12345~nmFoo~~Bar'' = [] @ ?p # []
           \<and> ?p ! 3 = encode_payload ?fs \<and> list_all (\<lambda>q. q ! 1 \<noteq> ?p ! 1) []"
    using roundtrip_example_matches by simp
  note t = tilde_escaping_roundtrip [OF n w d, of "''/g/collect?v=2&pr1=id12345~nmFoo~~Bar''"
      "[]" ?p "[]"]
  have r1: "parse_product ''id12345~nmFoo~~Bar''
       = [(''item_id'', ''12345''), (''item_name'', ''Foo~Bar'')]"
    using t [THEN conjunct1] unfolding e f .
  have r2: "map_of (products (ga4_parse ''/g/collect?v=2&pr1=id12345~nmFoo~~Bar'')) ''1''
       = Some [(''item_id'', ''12345''), (''item_name'', ''Foo~Bar'')]"
    using t [THEN conjunct2, rule_format, OF h] unfolding f by simp
  from e r1 r2 show ?thesis by (intro conjI)
qed

section \<open>Merging of fields in the Protocol-B decoder\<close>

lemma field_name_not_proto: "no_proto table \<Longrightarrow> field_name table c \<noteq> ''__proto__''"
proof (cases "map_of table c")
  case None
  then show ?thesis by (simp add: field_name_def)
next
  case (Some n)
  assume "no_proto table"
  moreover from Some have "(c, n) \<in> set table" by (rule map_of_SomeD)
  ultimately have "n \<noteq> ''__proto__''" unfolding no_proto_def list_all_iff by auto
  with Some show ?thesis by (simp add: field_name_def)
qed

lemma no_proto_tables:
  "no_proto GA4_PRODUCT_FIELDS" "no_proto UA_PRODUCT_FIELDS" "no_proto UA_IMPRESSION_FIELDS"
  "no_proto UA_PROMOTION_FIELDS" "no_proto UA_PARAMS"
  by (simp_all add: no_proto_def GA4_PRODUCT_FIELDS_def UA_PRODUCT_FIELDS_def
      UA_IMPRESSION_FIELDS_def UA_PROMOTION_FIELDS_def UA_PARAMS_def)

lemma map_of_set_field:
  "no_proto table \<Longrightarrow>
   map_of (set_field table obj c v) k = (if k = field_name table c then Some v else map_of obj k)"
  by (simp add: set_field_def obj_set_def field_name_not_proto update_conv')

lemma field_at_merge_field:
  "no_proto table \<Longrightarrow>
   field_at (merge_field table arr i c v) j k
   = (if j = i \<and> k = field_name table c then Some v else field_at arr j k)"
  by (auto simp: field_at_def merge_field_def update_conv' map_of_set_field entry_or_new_def
      split: option.splits)

lemma field_at_list_or_new:
  "field_at (il_impressions (list_or_new imps li)) j k = imp_field_at imps li j k"
  by (simp add: list_or_new_def imp_field_at_def field_at_def split: option.splits)

lemma imp_field_at_merge_impression:
  "imp_field_at (merge_impression imps li i c v) lj j k
   = (if lj = li \<and> j = i \<and> k = field_name UA_IMPRESSION_FIELDS c then Some v
      else imp_field_at imps lj j k)"
proof (cases "lj = li")
  case False
  then show ?thesis by (simp add: imp_field_at_def merge_impression_def update_conv')
next
  case True
  have "imp_field_at (merge_impression imps li i c v) li j k
        = field_at (merge_field UA_IMPRESSION_FIELDS
                      (il_impressions (list_or_new imps li)) i c v) j k"
    by (simp add: imp_field_at_def merge_impression_def update_conv')
  then show ?thesis
    using True by (simp add: field_at_merge_field no_proto_tables field_at_list_or_new)
qed

lemma list_name_at_merge_impression:
  "list_name_at (merge_impression imps li i c v) lj = list_name_at imps lj"
  by (auto simp: list_name_at_def merge_impression_def update_conv' list_or_new_def
      split: option.splits)

lemma list_name_at_set_list_name:
  "list_name_at (set_list_name imps i n) lj = (if lj = i then Some n else list_name_at imps lj)"
  by (simp add: list_name_at_def set_list_name_def update_conv')

lemma imp_field_at_set_list_name:
  "imp_field_at (set_list_name imps i n) lj j k = imp_field_at imps lj j k"
  by (simp add: imp_field_at_def set_list_name_def update_conv' list_or_new_def field_at_def
      split: option.splits)

lemma product_step_field:
  "field_at (mp_product_step arr p) j k
   = (if writes UA_PRODUCT_FIELDS j k p then Some (p ! 5) else field_at arr j k)"
  by (auto simp: mp_product_step_def field_at_merge_field no_proto_tables writes_def)

lemma promo_step_field:
  "field_at (mp_promo_step arr p) j k
   = (if writes UA_PROMOTION_FIELDS j k p then Some (p ! 5) else field_at arr j k)"
  by (auto simp: mp_promo_step_def field_at_merge_field no_proto_tables writes_def)

lemma impression_step_field:
  "imp_field_at (mp_impression_step imps p) lj j k
   = (if writes_impression lj j k p then Some (p ! 7) else imp_field_at imps lj j k)"
  by (auto simp: mp_impression_step_def imp_field_at_merge_impression writes_impression_def)

lemma list_name_step_name:
  "list_name_at (mp_list_name_step imps l) lj
   = (if l ! 1 = lj then Some (l ! 3) else list_name_at imps lj)"
  by (auto simp: mp_list_name_step_def list_name_at_set_list_name)

lemma list_names_no_impression: "imp_field_at (mp_list_names url) lj j k = None"
proof -
  have "imp_field_at (foldl mp_list_name_step [] ms) lj j k = imp_field_at [] lj j k" for ms
    by (induction ms rule: rev_induct)
       (simp_all add: mp_list_name_step_def imp_field_at_set_list_name)
  then show ?thesis by (simp add: mp_list_names_def imp_field_at_def)
qed

lemma impression_scan_keeps_names:
  "list_name_at (foldl mp_impression_step imps ms) lj = list_name_at imps lj"
  by (induction ms arbitrary: imps)
     (simp_all add: mp_impression_step_def list_name_at_merge_impression)

lemma products_last_writer:
  "field_at (mp_products url) j k
   = (case find (writes UA_PRODUCT_FIELDS j k) (rev (matchAll UA_PRODUCT_REGEX url)) of
        None \<Rightarrow> None | Some p \<Rightarrow> Some (p ! 5))"
proof -
  have "field_at (foldl mp_product_step [] (matchAll UA_PRODUCT_REGEX url)) j k
        = (case find (writes UA_PRODUCT_FIELDS j k) (rev (matchAll UA_PRODUCT_REGEX url)) of
             None \<Rightarrow> None | Some p \<Rightarrow> Some (p ! 5))"
    by (rule foldl_last_writer [where look = "\<lambda>arr. field_at arr j k"
          and step = mp_product_step and wr = "writes UA_PRODUCT_FIELDS j k"
          and vl = "\<lambda>p. p ! 5"]) (simp add: product_step_field, simp add: field_at_def)
  then show ?thesis by (simp add: mp_products_def field_at_def)
qed

lemma promos_last_writer:
  "field_at (mp_promos url) j k
   = (case find (writes UA_PROMOTION_FIELDS j k) (rev (matchAll UA_PROMO_REGEX url)) of
        None \<Rightarrow> None | Some p \<Rightarrow> Some (p ! 5))"
proof -
  have "field_at (foldl mp_promo_step [] (matchAll UA_PROMO_REGEX url)) j k
        = (case find (writes UA_PROMOTION_FIELDS j k) (rev (matchAll UA_PROMO_REGEX url)) of
             None \<Rightarrow> None | Some p \<Rightarrow> Some (p ! 5))"
    by (rule foldl_last_writer [where look = "\<lambda>arr. field_at arr j k"
          and step = mp_promo_step and wr = "writes UA_PROMOTION_FIELDS j k"
          and vl = "\<lambda>p. p ! 5"]) (simp add: promo_step_field, simp add: field_at_def)
  then show ?thesis by (simp add: mp_promos_def field_at_def)
qed

lemma impressions_last_writer:
  "imp_field_at (mp_impressions url) lj j k
   = (case find (writes_impression lj j k) (rev (matchAll UA_IMPRESSION_REGEX url)) of
        None \<Rightarrow> None | Some p \<Rightarrow> Some (p ! 7))"
proof -
  have "imp_field_at (foldl mp_impression_step (mp_list_names url)
                        (matchAll UA_IMPRESSION_REGEX url)) lj j k
        = (case find (writes_impression lj j k) (rev (matchAll UA_IMPRESSION_REGEX url)) of
             None \<Rightarrow> None | Some p \<Rightarrow> Some (p ! 7))"
    by (rule foldl_last_writer [where look = "\<lambda>imps. imp_field_at imps lj j k"
          and step = mp_impression_step and wr = "writes_impression lj j k"
          and vl = "\<lambda>p. p ! 7"])
       (simp_all add: impression_step_field list_names_no_impression)
  then show ?thesis by (simp add: mp_impressions_def list_names_no_impression)
qed

lemma list_names_last_writer:
  "list_name_at (mp_impressions url) lj
   = (case find (\<lambda>l. l ! 1 = lj) (rev (matchAll UA_LIST_NAME_REGEX url)) of
        None \<Rightarrow> None | Some l \<Rightarrow> Some (l ! 3))"
proof -
  have "list_name_at (foldl mp_list_name_step [] (matchAll UA_LIST_NAME_REGEX url)) lj
        = (case find (\<lambda>l. l ! 1 = lj) (rev (matchAll UA_LIST_NAME_REGEX url)) of
             None \<Rightarrow> None | Some l \<Rightarrow> Some (l ! 3))"
    by (rule foldl_last_writer [where look = "\<lambda>imps. list_name_at imps lj"
          and step = mp_list_name_step and wr = "\<lambda>l. l ! 1 = lj"
          and vl = "\<lambda>l. l ! 3"]) (simp add: list_name_step_name, simp add: list_name_at_def)
  then show ?thesis
    by (simp add: mp_impressions_def impression_scan_keeps_names mp_list_names_def)
qed

lemma products_one_entry_per_index: "distinct (map fst (mp_products url))"
proof -
  have "distinct (map fst (foldl mp_product_step [] ms))" for ms
    by (induction ms rule: rev_induct)
       (simp_all add: mp_product_step_def merge_field_def distinct_update)
  then show ?thesis by (simp add: mp_products_def)
qed

lemma overwrite_matches:
  "matchAll UA_PRODUCT_REGEX ''&pr1xx=foo&pr1yy=bar''
   = [[''&pr'', ''1'', ''x'', ''x'', ''='', ''foo''], [''&pr'', ''1'', ''y'', ''y'', ''='', ''bar'']]"
  "matchAll UA_PRODUCT_REGEX ''&pr1xx=foo'' = [[''&pr'', ''1'', ''x'', ''x'', ''='', ''foo'']]"
  by (simp_all add: UA_PRODUCT_REGEX_def is_digit_def is_word_def is_eq_def not_amp_def
      took_def took_more_def)

lemma example_product_matches:
  "matchAll UA_PRODUCT_REGEX
     ''&pr1id=SKU1&pr1nm=Widget&il2nm=Homepage&il2pi0id=SKU2&promo3id=P9&pa=purchase&tr=19.99''
   = [[''&pr'', ''1'', ''i'', ''d'', ''='', ''SKU1''],
      [''&pr'', ''1'', ''n'', ''m'', ''='', ''Widget'']]"
  by (simp add: UA_PRODUCT_REGEX_def is_digit_def is_word_def is_eq_def not_amp_def
      took_def took_more_def)

lemma example_list_name_matches:
  "matchAll UA_LIST_NAME_REGEX
     ''&pr1id=SKU1&pr1nm=Widget&il2nm=Homepage&il2pi0id=SKU2&promo3id=P9&pa=purchase&tr=19.99''
   = [[''&il'', ''2'', ''nm='', ''Homepage'']]"
  by (simp add: UA_LIST_NAME_REGEX_def is_digit_def not_amp_def took_def took_more_def)

lemma example_impression_matches:
  "matchAll UA_IMPRESSION_REGEX
     ''&pr1id=SKU1&pr1nm=Widget&il2nm=Homepage&il2pi0id=SKU2&promo3id=P9&pa=purchase&tr=19.99''
   = [[''&il'', ''2'', ''pi'', ''0'', ''i'', ''d'', ''='', ''SKU2'']]"
  by (simp add: UA_IMPRESSION_REGEX_def is_digit_def is_word_def not_amp_def
      took_def took_more_def)

lemma example_promo_matches:
  "matchAll UA_PROMO_REGEX
     ''&pr1id=SKU1&pr1nm=Widget&il2nm=Homepage&il2pi0id=SKU2&promo3id=P9&pa=purchase&tr=19.99''
   = [[''&promo'', ''3'', ''i'', ''d'', ''='', ''P9'']]"
  by (simp add: UA_PROMO_REGEX_def is_digit_def is_word_def not_amp_def
      took_def took_more_def)

lemma example_param_matches:
  "matchAll UA_PARAMS_REGEX
     ''&pr1id=SKU1&pr1nm=Widget&il2nm=Homepage&il2pi0id=SKU2&promo3id=P9&pa=purchase&tr=19.99''
   = [[''&'', ''pa'', ''='', ''purchase''], [''&'', ''tr'', ''='', ''19.99'']]"
  by (simp add: UA_PARAMS_REGEX_def not_amp_def took_def took_more_def)

lemma example_record:
  "mp_parse
     ''&pr1id=SKU1&pr1nm=Widget&il2nm=Homepage&il2pi0id=SKU2&promo3id=P9&pa=purchase&tr=19.99''
   = \<lparr> products = [(''1'', [(''item_id'', ''SKU1''), (''item_name'', ''Widget'')])],
       impressions = Some [(''2'', \<lparr> il_name = Some ''Homepage'',
                                    il_impressions = [(''0'', [(''item_id'', ''SKU2'')])] \<rparr>)],
       promos = Some [(''3'', [(''item_id'', ''P9'')])],
       params = Some [(''product_action'', ''purchase''), (''value'', ''19.99'')],
       event = None \<rparr>"
  unfolding mp_parse_def mp_products_def mp_impressions_def mp_list_names_def mp_promos_def
    mp_params_def example_product_matches example_list_name_matches
    example_impression_matches example_promo_matches example_param_matches
  by (simp add: mp_product_step_def mp_promo_step_def mp_impression_step_def
      mp_list_name_step_def set_list_name_def merge_impression_def list_or_new_def
      merge_field_def set_field_def obj_set_def field_name_def entry_or_new_def
      UA_PRODUCT_FIELDS_def UA_PROMOTION_FIELDS_def UA_IMPRESSION_FIELDS_def UA_PARAMS_def)

text \<open>
  C7 (a later field is merged into the entry already there, and every field decoded
  earlier is preserved). A later field is stored under the field name of its code, and a
  code that is not in the table has the name \<^verbatim>\<open>undefined\<close>: in \<^verbatim>\<open>&pr1xx=foo&pr1yy=bar\<close> the
  two fields address the same product, and the second one leaves nothing of the first,
  which alone would have been decoded to \<^verbatim>\<open>{undefined: "foo"}\<close>.
\<close>

theorem later_field_overwrites_counterexample:
  "products (mp_parse ''&pr1xx=foo'') = [(''1'', [(''undefined'', ''foo'')])]
   \<and> products (mp_parse ''&pr1xx=foo&pr1yy=bar'') = [(''1'', [(''undefined'', ''bar'')])]"
  unfolding mp_parse_def mp_products_def overwrite_matches
  by (simp add: mp_product_step_def merge_field_def set_field_def obj_set_def
      field_name_def UA_PRODUCT_FIELDS_def entry_or_new_def)

text \<open>
  C7 as amended. A parameter writes field \<open>k\<close> of the entry at index \<open>j\<close> when its index
  is \<open>j\<close> and its code has the field name \<open>k\<close>: the name the table gives, and \<^verbatim>\<open>undefined\<close>
  for a code that is not in the table. In the decoded record every field of every
  product, promotion and impression holds the value of the last parameter of the URL
  that writes it, and is absent when no parameter writes it; the name of an impression
  list is the one given by the last list-name parameter with its index. So a later field
  is written into the entry already created, no entry is ever replaced as a whole, and a
  field decoded earlier is lost exactly when a later parameter writes the same field name
  of the same entry. The products have one entry for each index, and no two codes of a
  table share a field name: fields with different known codes never overwrite each
  other, a repeated code and any two codes that are not in the table do. The witness is
  the hit of the specification, in which \<^verbatim>\<open>&pr1id=SKU1&pr1nm=Widget\<close> gives one product at
  index 1 with both \<^verbatim>\<open>item_id\<close> and \<^verbatim>\<open>item_name\<close>.
\<close>

theorem mp_parse_merges_fields:
  "field_at (products (mp_parse url)) j k
     = (case find (writes UA_PRODUCT_FIELDS j k) (rev (matchAll UA_PRODUCT_REGEX url)) of
          None \<Rightarrow> None | Some p \<Rightarrow> Some (p ! 5))
   \<and> map_option (\<lambda>arr. field_at arr j k) (promos (mp_parse url))
     = Some (case find (writes UA_PROMOTION_FIELDS j k) (rev (matchAll UA_PROMO_REGEX url)) of
               None \<Rightarrow> None | Some p \<Rightarrow> Some (p ! 5))
   \<and> map_option (\<lambda>imps. imp_field_at imps lj j k) (impressions (mp_parse url))
     = Some (case find (writes_impression lj j k) (rev (matchAll UA_IMPRESSION_REGEX url)) of
               None \<Rightarrow> None | Some p \<Rightarrow> Some (p ! 7))
   \<and> map_option (\<lambda>imps. list_name_at imps lj) (impressions (mp_parse url))
     = Some (case find (\<lambda>l. l ! 1 = lj) (rev (matchAll UA_LIST_NAME_REGEX url)) of
               None \<Rightarrow> None | Some l \<Rightarrow> Some (l ! 3))
   \<and> distinct (map fst (products (mp_parse url)))
   \<and> distinct (map snd UA_PRODUCT_FIELDS) \<and> distinct (map snd UA_PROMOTION_FIELDS)
   \<and> distinct (map snd UA_IMPRESSION_FIELDS)"
proof (intro conjI)
  show "field_at (products (mp_parse url)) j k
     = (case find (writes UA_PRODUCT_FIELDS j k) (rev (matchAll UA_PRODUCT_REGEX url)) of
          None \<Rightarrow> None | Some p \<Rightarrow> Some (p ! 5))"
    using products_last_writer [of url j k] by (simp add: mp_parse_def)
  show "map_option (\<lambda>arr. field_at arr j k) (promos (mp_parse url))
     = Some (case find (writes UA_PROMOTION_FIELDS j k) (rev (matchAll UA_PROMO_REGEX url)) of
               None \<Rightarrow> None | Some p \<Rightarrow> Some (p ! 5))"
    using promos_last_writer [of url j k] by (simp add: mp_parse_def)
  show "map_option (\<lambda>imps. imp_field_at imps lj j k) (impressions (mp_parse url))
     = Some (case find (writes_impression lj j k) (rev (matchAll UA_IMPRESSION_REGEX url)) of
               None \<Rightarrow> None | Some p \<Rightarrow> Some (p ! 7))"
    using impressions_last_writer [of url lj j k] by (simp add: mp_parse_def)
  show "map_option (\<lambda>imps. list_name_at imps lj) (impressions (mp_parse url))
     = Some (case find (\<lambda>l. l ! 1 = lj) (rev (matchAll UA_LIST_NAME_REGEX url)) of
               None \<Rightarrow> None | Some l \<Rightarrow> Some (l ! 3))"
    using list_names_last_writer [of url lj] by (simp add: mp_parse_def)
  show "distinct (map fst (products (mp_parse url)))"
    by (simp add: mp_parse_def products_one_entry_per_index)
  show "distinct (map snd UA_PRODUCT_FIELDS)" "distinct (map snd UA_PROMOTION_FIELDS)"
    "distinct (map snd UA_IMPRESSION_FIELDS)"
    by (simp_all add: UA_PRODUCT_FIELDS_def UA_IMPRESSION_FIELDS_def UA_PROMOTION_FIELDS_def)
qed

theorem mp_parse_merges_fields_witness:
  "mp_parse
     ''&pr1id=SKU1&pr1nm=Widget&il2nm=Homepage&il2pi0id=SKU2&promo3id=P9&pa=purchase&tr=19.99''
   = \<lparr> products = [(''1'', [(''item_id'', ''SKU1''), (''item_name'', ''Widget'')])],
       impressions = Some [(''2'', \<lparr> il_name = Some ''Homepage'',
                                    il_impressions = [(''0'', [(''item_id'', ''SKU2'')])] \<rparr>)],
       promos = Some [(''3'', [(''item_id'', ''P9'')])],
       params = Some [(''product_action'', ''purchase''), (''value'', ''19.99'')],
       event = None \<rparr>
   \<and> field_at (products (mp_parse
     ''&pr1id=SKU1&pr1nm=Widget&il2nm=Homepage&il2pi0id=SKU2&promo3id=P9&pa=purchase&tr=19.99''))
       ''1'' ''item_id'' = Some ''SKU1''
   \<and> field_at (products (mp_parse
     ''&pr1id=SKU1&pr1nm=Widget&il2nm=Homepage&il2pi0id=SKU2&promo3id=P9&pa=purchase&tr=19.99''))
       ''1'' ''item_name'' = Some ''Widget''
   \<and> field_at (products (mp_parse
     ''&pr1id=SKU1&pr1nm=Widget&il2nm=Homepage&il2pi0id=SKU2&promo3id=P9&pa=purchase&tr=19.99''))
       ''1'' ''price'' = None
   \<and> map_option (\<lambda>arr. field_at arr ''3'' ''item_id'') (promos (mp_parse
     ''&pr1id=SKU1&pr1nm=Widget&il2nm=Homepage&il2pi0id=SKU2&promo3id=P9&pa=purchase&tr=19.99''))
       = Some (Some ''P9'')
   \<and> map_option (\<lambda>imps. imp_field_at imps ''2'' ''0'' ''item_id'') (impressions (mp_parse
     ''&pr1id=SKU1&pr1nm=Widget&il2nm=Homepage&il2pi0id=SKU2&promo3id=P9&pa=purchase&tr=19.99''))
       = Some (Some ''SKU2'')
   \<and> map_option (\<lambda>imps. list_name_at imps ''2'') (impressions (mp_parse
     ''&pr1id=SKU1&pr1nm=Widget&il2nm=Homepage&il2pi0id=SKU2&promo3id=P9&pa=purchase&tr=19.99''))
       = Some (Some ''Homepage'')
   \<and> field_at (products (mp_parse ''&pr1xx=foo&pr1yy=bar'')) ''1'' ''undefined'' = Some ''bar''"
proof -
  let ?u = "''&pr1id=SKU1&pr1nm=Widget&il2nm=Homepage&il2pi0id=SKU2&promo3id=P9&pa=purchase&tr=19.99''"
  note t1 = mp_parse_merges_fields [THEN conjunct1]
  note t2 = mp_parse_merges_fields [THEN conjunct2, THEN conjunct1]
  note t3 = mp_parse_merges_fields [THEN conjunct2, THEN conjunct2, THEN conjunct1]
  note t4 = mp_parse_merges_fields [THEN conjunct2, THEN conjunct2, THEN conjunct2,
      THEN conjunct1]
  have b: "field_at (products (mp_parse ?u)) ''1'' ''item_id'' = Some ''SKU1''"
    unfolding t1 example_product_matches
    by (simp add: writes_def field_name_def UA_PRODUCT_FIELDS_def)
  have c: "field_at (products (mp_parse ?u)) ''1'' ''item_name'' = Some ''Widget''"
    unfolding t1 example_product_matches
    by (simp add: writes_def field_name_def UA_PRODUCT_FIELDS_def)
  have d: "field_at (products (mp_parse ?u)) ''1'' ''price'' = None"
    unfolding t1 example_product_matches
    by (simp add: writes_def field_name_def UA_PRODUCT_FIELDS_def)
  have f: "map_option (\<lambda>arr. field_at arr ''3'' ''item_id'') (promos (mp_parse ?u))
           = Some (Some ''P9'')"
    unfolding t2 example_promo_matches
    by (simp add: writes_def field_name_def UA_PROMOTION_FIELDS_def)
  have g: "map_option (\<lambda>imps. imp_field_at imps ''2'' ''0'' ''item_id'')
             (impressions (mp_parse ?u)) = Some (Some ''SKU2'')"
    unfolding t3 example_impression_matches
    by (simp add: writes_impression_def field_name_def UA_IMPRESSION_FIELDS_def)
  have h: "map_option (\<lambda>imps. list_name_at imps ''2'') (impressions (mp_parse ?u))
           = Some (Some ''Homepage'')"
    unfolding t4 example_list_name_matches by simp
  have e: "field_at (products (mp_parse ''&pr1xx=foo&pr1yy=bar'')) ''1'' ''undefined''
           = Some ''bar''"
    unfolding t1 overwrite_matches
    by (simp add: writes_def field_name_def UA_PRODUCT_FIELDS_def)
  from example_record b c d f g h e show ?thesis by (intro conjI)
qed

section \<open>Field codes that are not in the code table\<close>

lemma field_name_unknown: "map_of table c = None \<Longrightarrow> field_name table c = ''undefined''"
  by (simp add: field_name_def)

lemma field_name_undefined_iff:
  assumes "''undefined'' \<notin> snd ` set table"
  shows "field_name table c = ''undefined'' \<longleftrightarrow> map_of table c = None"
proof (cases "map_of table c")
  case None
  then show ?thesis by (simp add: field_name_def)
next
  case (Some n)
  then have "(c, n) \<in> set table" by (rule map_of_SomeD)
  with assms have "n \<noteq> ''undefined''" by force
  with Some show ?thesis by (simp add: field_name_def)
qed

lemma no_undefined_in_tables:
  "''undefined'' \<notin> snd ` set GA4_PRODUCT_FIELDS" "''undefined'' \<notin> snd ` set UA_PRODUCT_FIELDS"
  "''undefined'' \<notin> snd ` set UA_IMPRESSION_FIELDS"
  "''undefined'' \<notin> snd ` set UA_PROMOTION_FIELDS"
  by (simp_all add: GA4_PRODUCT_FIELDS_def UA_PRODUCT_FIELDS_def UA_IMPRESSION_FIELDS_def
      UA_PROMOTION_FIELDS_def)

lemma writes_undefined:
  "writes UA_PRODUCT_FIELDS j ''undefined'' q
   \<longleftrightarrow> q ! 1 = j \<and> map_of UA_PRODUCT_FIELDS (q ! 2 @ q ! 3) = None"
  "writes UA_PROMOTION_FIELDS j ''undefined'' q
   \<longleftrightarrow> q ! 1 = j \<and> map_of UA_PROMOTION_FIELDS (q ! 2 @ q ! 3) = None"
  "writes_impression lj j ''undefined'' q
   \<longleftrightarrow> q ! 1 = lj \<and> q ! 3 = j \<and> map_of UA_IMPRESSION_FIELDS (q ! 4 @ q ! 5) = None"
  by (simp_all only: writes_def writes_impression_def
      field_name_undefined_iff [OF no_undefined_in_tables(2)]
      field_name_undefined_iff [OF no_undefined_in_tables(3)]
      field_name_undefined_iff [OF no_undefined_in_tables(4)])

lemma map_of_foldl_set_field:
  assumes "no_proto table"
    and "list_all (\<lambda>g. field_name table (fst g) \<noteq> k) fs2"
    and "field_name table (fst f) = k"
  shows "map_of (foldl (\<lambda>p f. set_field table p (fst f) (snd f)) acc (fs1 @ f # fs2)) k
         = Some (snd f)"
proof -
  have "map_of (foldl (\<lambda>p f. set_field table p (fst f) (snd f)) acc (fs1 @ f # fs2)) k
        = map_of (set_field table
                    (foldl (\<lambda>p f. set_field table p (fst f) (snd f)) acc fs1) (fst f) (snd f)) k"
    by (rule foldl_last_write [where wr = "\<lambda>g. field_name table (fst g) = k"
          and look = "\<lambda>p. map_of p k"
          and step = "\<lambda>p f. set_field table p (fst f) (snd f)"])
       (use assms in \<open>simp_all add: map_of_set_field\<close>)
  then show ?thesis using assms by (simp add: map_of_set_field)
qed

lemma find_last_writer:
  assumes "wr p" and "list_all (\<lambda>q. \<not> wr q) ms2"
  shows "find wr (rev (ms1 @ p # ms2)) = Some p"
proof -
  have "find wr (rev ms2 @ xs) = find wr xs" for xs
    using assms(2) by (induction ms2 arbitrary: xs) simp_all
  from this [of "p # rev ms1"] assms(1) show ?thesis by simp
qed

lemma unknown_product_matches:
  "matchAll UA_PRODUCT_REGEX ''&pr1xx=foo&pr1id=7''
   = [] @ [''&pr'', ''1'', ''x'', ''x'', ''='', ''foo''] # [[''&pr'', ''1'', ''i'', ''d'', ''='', ''7'']]"
  by (simp add: UA_PRODUCT_REGEX_def is_digit_def is_word_def is_eq_def not_amp_def
      took_def took_more_def)

lemma unknown_promo_matches:
  "matchAll UA_PROMO_REGEX ''&promo3zz=bar''
   = [] @ [''&promo'', ''3'', ''z'', ''z'', ''='', ''bar''] # []"
  by (simp add: UA_PROMO_REGEX_def is_digit_def is_word_def not_amp_def took_def took_more_def)

lemma unknown_impression_matches:
  "matchAll UA_IMPRESSION_REGEX ''&il2pi0zz=Q''
   = [] @ [''&il'', ''2'', ''pi'', ''0'', ''z'', ''z'', ''='', ''Q''] # []"
  by (simp add: UA_IMPRESSION_REGEX_def is_digit_def is_word_def not_amp_def
      took_def took_more_def)

lemma unknown_ga4_matches:
  "matchAll GA4_PRODUCT_REGEX ''&pr1=idSKU~zzfoo''
   = [] @ [''&pr'', ''1'', ''='', ''idSKU~zzfoo''] # []"
  by (simp add: GA4_PRODUCT_REGEX_def is_digit_def not_amp_def took_def took_more_def)

lemma unknown_ga4_matches2:
  "matchAll GA4_PRODUCT_REGEX ''&pr1=zzfoo~idSKU&pr2=idA''
   = [] @ [''&pr'', ''1'', ''='', ''zzfoo~idSKU''] # [[''&pr'', ''2'', ''='', ''idA'']]"
  by (simp add: GA4_PRODUCT_REGEX_def is_digit_def not_amp_def took_def took_more_def)

lemma parse_product_example:
  "parse_product ''idSKU~zzfoo'' = [(''item_id'', ''SKU''), (''undefined'', ''foo'')]"
  by (simp add: parse_product_def set_field_def obj_set_def field_name_def
      GA4_PRODUCT_FIELDS_def)

text \<open>
  C2 (a field whose code is not in the table is dropped). The source does not drop it:
  \<^verbatim>\<open>product[TABLE[code]] = value\<close> with an unknown code assigns to the property named
  \<^verbatim>\<open>undefined\<close>. The Protocol-B hit \<^verbatim>\<open>&pr1xx=foo\<close> decodes to the product
  \<^verbatim>\<open>{undefined: "foo"}\<close> at index 1, and the Protocol-A hit \<^verbatim>\<open>&pr1=idSKU~zzfoo\<close> to the
  product \<^verbatim>\<open>{item_id: "SKU", undefined: "foo"}\<close>.
\<close>

theorem unknown_code_dropped_counterexample:
  "map_of UA_PRODUCT_FIELDS ''xx'' = None
   \<and> products (mp_parse ''&pr1xx=foo'') = [(''1'', [(''undefined'', ''foo'')])]
   \<and> map_of GA4_PRODUCT_FIELDS ''zz'' = None
   \<and> products (ga4_parse ''&pr1=idSKU~zzfoo'')
       = [(''1'', [(''item_id'', ''SKU''), (''undefined'', ''foo'')])]"
proof -
  have m: "matchAll UA_PRODUCT_REGEX ''&pr1xx=foo'' = [[''&pr'', ''1'', ''x'', ''x'', ''='', ''foo'']]"
    by (simp add: UA_PRODUCT_REGEX_def is_digit_def is_word_def is_eq_def not_amp_def
        took_def took_more_def)
  have a: "products (mp_parse ''&pr1xx=foo'') = [(''1'', [(''undefined'', ''foo'')])]"
    unfolding mp_parse_def mp_products_def m
    by (simp add: mp_product_step_def merge_field_def set_field_def obj_set_def
        field_name_def UA_PRODUCT_FIELDS_def entry_or_new_def)
  have b: "products (ga4_parse ''&pr1=idSKU~zzfoo'')
       = [(''1'', [(''item_id'', ''SKU''), (''undefined'', ''foo'')])]"
    unfolding ga4_parse_def ga4_products_def unknown_ga4_matches
    by (simp add: ga4_product_step_def parse_product_example)
  have c: "map_of UA_PRODUCT_FIELDS ''xx'' = None" by (simp add: UA_PRODUCT_FIELDS_def)
  have d: "map_of GA4_PRODUCT_FIELDS ''zz'' = None" by (simp add: GA4_PRODUCT_FIELDS_def)
  from c a d b show ?thesis by (intro conjI)
qed

text \<open>
  C2 as amended. No error is raised (both decoders are total), and the value of a field
  whose code is not in the table is kept under the key \<^verbatim>\<open>undefined\<close> of its entry.
  In the record decoded by Protocol B the entry holds it there, for a product, a
  promotion and an impression field, unless a later parameter of the same scan has the
  same index (for an impression: the same list index and the same impression index) and
  a code that is not in the table either. In the record decoded by Protocol A the
  product at index \<^verbatim>\<open>N\<close> holds it there when it is a field of the payload of a \<^verbatim>\<open>&pr<N>=\<close>
  parameter, the payload being the encoding of fields with two-character codes without
  a tilde, unless a later field of the same payload has a code that is not in the table
  either, or a later \<^verbatim>\<open>&pr<N>=\<close> parameter of the URL has the same index: that one replaces
  the whole product.
\<close>

theorem unknown_code_stored_as_undefined:
  "(matchAll UA_PRODUCT_REGEX url = ms1 @ p # ms2
      \<and> map_of UA_PRODUCT_FIELDS (p ! 2 @ p ! 3) = None
      \<and> list_all (\<lambda>q. \<not> (q ! 1 = p ! 1 \<and> map_of UA_PRODUCT_FIELDS (q ! 2 @ q ! 3) = None)) ms2
      \<longrightarrow> field_at (products (mp_parse url)) (p ! 1) ''undefined'' = Some (p ! 5))
   \<and> (matchAll UA_PROMO_REGEX url = ms1 @ p # ms2
      \<and> map_of UA_PROMOTION_FIELDS (p ! 2 @ p ! 3) = None
      \<and> list_all (\<lambda>q. \<not> (q ! 1 = p ! 1 \<and> map_of UA_PROMOTION_FIELDS (q ! 2 @ q ! 3) = None)) ms2
      \<longrightarrow> (\<exists>arr. promos (mp_parse url) = Some arr
                 \<and> field_at arr (p ! 1) ''undefined'' = Some (p ! 5)))
   \<and> (matchAll UA_IMPRESSION_REGEX url = ms1 @ p # ms2
      \<and> map_of UA_IMPRESSION_FIELDS (p ! 4 @ p ! 5) = None
      \<and> list_all (\<lambda>q. \<not> (q ! 1 = p ! 1 \<and> q ! 3 = p ! 3
                          \<and> map_of UA_IMPRESSION_FIELDS (q ! 4 @ q ! 5) = None)) ms2
      \<longrightarrow> (\<exists>imps. impressions (mp_parse url) = Some imps
                 \<and> imp_field_at imps (p ! 1) (p ! 3) ''undefined'' = Some (p ! 7)))
   \<and> (matchAll GA4_PRODUCT_REGEX url = ms1 @ p # ms2
      \<and> list_all (\<lambda>q. q ! 1 \<noteq> p ! 1) ms2
      \<and> p ! 3 = encode_payload (fs1 @ f # fs2)
      \<and> list_all well_coded (fs1 @ f # fs2)
      \<and> map_of GA4_PRODUCT_FIELDS (fst f) = None
      \<and> list_all (\<lambda>g. map_of GA4_PRODUCT_FIELDS (fst g) \<noteq> None) fs2
      \<longrightarrow> field_at (products (ga4_parse url)) (p ! 1) ''undefined'' = Some (snd f))"
proof (intro conjI impI)
  assume h: "matchAll UA_PRODUCT_REGEX url = ms1 @ p # ms2
      \<and> map_of UA_PRODUCT_FIELDS (p ! 2 @ p ! 3) = None
      \<and> list_all (\<lambda>q. \<not> (q ! 1 = p ! 1 \<and> map_of UA_PRODUCT_FIELDS (q ! 2 @ q ! 3) = None)) ms2"
  then have "find (writes UA_PRODUCT_FIELDS (p ! 1) ''undefined'') (rev (ms1 @ p # ms2)) = Some p"
    by (intro find_last_writer) (simp_all only: writes_undefined simp_thms)
  with h show "field_at (products (mp_parse url)) (p ! 1) ''undefined'' = Some (p ! 5)"
    using products_last_writer [of url "p ! 1" "''undefined''"] by (simp add: mp_parse_def)
next
  assume h: "matchAll UA_PROMO_REGEX url = ms1 @ p # ms2
      \<and> map_of UA_PROMOTION_FIELDS (p ! 2 @ p ! 3) = None
      \<and> list_all (\<lambda>q. \<not> (q ! 1 = p ! 1 \<and> map_of UA_PROMOTION_FIELDS (q ! 2 @ q ! 3) = None)) ms2"
  then have "find (writes UA_PROMOTION_FIELDS (p ! 1) ''undefined'') (rev (ms1 @ p # ms2)) = Some p"
    by (intro find_last_writer) (simp_all only: writes_undefined simp_thms)
  with h show "\<exists>arr. promos (mp_parse url) = Some arr
                 \<and> field_at arr (p ! 1) ''undefined'' = Some (p ! 5)"
    using promos_last_writer [of url "p ! 1" "''undefined''"] by (simp add: mp_parse_def)
next
  assume h: "matchAll UA_IMPRESSION_REGEX url = ms1 @ p # ms2
      \<and> map_of UA_IMPRESSION_FIELDS (p ! 4 @ p ! 5) = None
      \<and> list_all (\<lambda>q. \<not> (q ! 1 = p ! 1 \<and> q ! 3 = p ! 3
                          \<and> map_of UA_IMPRESSION_FIELDS (q ! 4 @ q ! 5) = None)) ms2"
  then have "find (writes_impression (p ! 1) (p ! 3) ''undefined'') (rev (ms1 @ p # ms2)) = Some p"
    by (intro find_last_writer) (simp_all only: writes_undefined simp_thms)
  with h show "\<exists>imps. impressions (mp_parse url) = Some imps
                 \<and> imp_field_at imps (p ! 1) (p ! 3) ''undefined'' = Some (p ! 7)"
    using impressions_last_writer [of url "p ! 1" "p ! 3" "''undefined''"]
    by (simp add: mp_parse_def)
next
  assume h: "matchAll GA4_PRODUCT_REGEX url = ms1 @ p # ms2
      \<and> list_all (\<lambda>q. q ! 1 \<noteq> p ! 1) ms2
      \<and> p ! 3 = encode_payload (fs1 @ f # fs2)
      \<and> list_all well_coded (fs1 @ f # fs2)
      \<and> map_of GA4_PRODUCT_FIELDS (fst f) = None
      \<and> list_all (\<lambda>g. map_of GA4_PRODUCT_FIELDS (fst g) \<noteq> None) fs2"
  then have s: "map_of (ga4_products url) (p ! 1) = Some (parse_product (p ! 3))"
    using ga4_products_last_match by blast
  have ne: "fs1 @ f # fs2 \<noteq> []" by simp
  have e: "parse_product (encode_payload (fs1 @ f # fs2))
        = foldl (\<lambda>p f. set_field GA4_PRODUCT_FIELDS p (fst f) (snd f)) [] (fs1 @ f # fs2)"
    unfolding parse_product_def by (rule parts_loop_encoded [OF ne]) (use h in simp)
  from h have l: "list_all (\<lambda>g. field_name GA4_PRODUCT_FIELDS (fst g) \<noteq> ''undefined'') fs2"
    by (simp only: field_name_undefined_iff [OF no_undefined_in_tables(1)])
  from h have u: "field_name GA4_PRODUCT_FIELDS (fst f) = ''undefined''"
    by (simp add: field_name_unknown)
  have "map_of (parse_product (encode_payload (fs1 @ f # fs2))) ''undefined'' = Some (snd f)"
    unfolding e by (rule map_of_foldl_set_field [OF no_proto_tables(1) l u])
  with s h show "field_at (products (ga4_parse url)) (p ! 1) ''undefined'' = Some (snd f)"
    by (simp add: ga4_parse_def field_at_def)
qed

theorem unknown_code_stored_as_undefined_witness:
  "field_at (products (mp_parse ''&pr1xx=foo&pr1id=7'')) ''1'' ''undefined'' = Some ''foo''
   \<and> (\<exists>arr. promos (mp_parse ''&promo3zz=bar'') = Some arr
           \<and> field_at arr ''3'' ''undefined'' = Some ''bar'')
   \<and> (\<exists>imps. impressions (mp_parse ''&il2pi0zz=Q'') = Some imps
           \<and> imp_field_at imps ''2'' ''0'' ''undefined'' = Some ''Q'')
   \<and> field_at (products (ga4_parse ''&pr1=zzfoo~idSKU&pr2=idA'')) ''1'' ''undefined''
       = Some ''foo''"
proof -
  note t = unknown_code_stored_as_undefined
  let ?p1 = "[''&pr'', ''1'', ''x'', ''x'', ''='', ''foo'']"
  let ?p2 = "[''&promo'', ''3'', ''z'', ''z'', ''='', ''bar'']"
  let ?p3 = "[''&il'', ''2'', ''pi'', ''0'', ''z'', ''z'', ''='', ''Q'']"
  let ?p4 = "[''&pr'', ''1'', ''='', ''zzfoo~idSKU'']"
  have u1: "map_of UA_PRODUCT_FIELDS (?p1 ! 2 @ ?p1 ! 3) = None"
    by (simp add: UA_PRODUCT_FIELDS_def)
  have w1: "list_all (\<lambda>q. \<not> (q ! 1 = ?p1 ! 1
                \<and> map_of UA_PRODUCT_FIELDS (q ! 2 @ q ! 3) = None))
              [[''&pr'', ''1'', ''i'', ''d'', ''='', ''7'']]"
    by (simp add: UA_PRODUCT_FIELDS_def)
  have u2: "map_of UA_PROMOTION_FIELDS (?p2 ! 2 @ ?p2 ! 3) = None"
    by (simp add: UA_PROMOTION_FIELDS_def)
  have w2: "list_all (\<lambda>q. \<not> (q ! 1 = ?p2 ! 1
                \<and> map_of UA_PROMOTION_FIELDS (q ! 2 @ q ! 3) = None)) []"
    by simp
  have u3: "map_of UA_IMPRESSION_FIELDS (?p3 ! 4 @ ?p3 ! 5) = None"
    by (simp add: UA_IMPRESSION_FIELDS_def)
  have w3: "list_all (\<lambda>q. \<not> (q ! 1 = ?p3 ! 1 \<and> q ! 3 = ?p3 ! 3
                \<and> map_of UA_IMPRESSION_FIELDS (q ! 4 @ q ! 5) = None)) []"
    by simp
  have c4: "list_all (\<lambda>q. q ! 1 \<noteq> ?p4 ! 1) [[''&pr'', ''2'', ''='', ''idA'']]
            \<and> ?p4 ! 3 = encode_payload ([] @ (''zz'', ''foo'') # [(''id'', ''SKU'')])
            \<and> list_all well_coded ([] @ (''zz'', ''foo'') # [(''id'', ''SKU'')])
            \<and> map_of GA4_PRODUCT_FIELDS (fst (''zz'', ''foo'')) = None
            \<and> list_all (\<lambda>g. map_of GA4_PRODUCT_FIELDS (fst g) \<noteq> None) [(''id'', ''SKU'')]"
    by (simp add: well_coded_def GA4_PRODUCT_FIELDS_def)
  have r1: "field_at (products (mp_parse ''&pr1xx=foo&pr1id=7'')) ''1'' ''undefined''
            = Some ''foo''"
    using t [THEN conjunct1, rule_format, OF conjI [OF unknown_product_matches conjI [OF u1 w1]]]
    by simp
  have r2: "\<exists>arr. promos (mp_parse ''&promo3zz=bar'') = Some arr
           \<and> field_at arr ''3'' ''undefined'' = Some ''bar''"
    using t [THEN conjunct2, THEN conjunct1, rule_format,
        OF conjI [OF unknown_promo_matches conjI [OF u2 w2]]]
    by simp
  have r3: "\<exists>imps. impressions (mp_parse ''&il2pi0zz=Q'') = Some imps
           \<and> imp_field_at imps ''2'' ''0'' ''undefined'' = Some ''Q''"
    using t [THEN conjunct2, THEN conjunct2, THEN conjunct1, rule_format,
        OF conjI [OF unknown_impression_matches conjI [OF u3 w3]]]
    by simp
  have r4: "field_at (products (ga4_parse ''&pr1=zzfoo~idSKU&pr2=idA'')) ''1'' ''undefined''
       = Some ''foo''"
    using t [THEN conjunct2, THEN conjunct2, THEN conjunct2, rule_format,
        OF conjI [OF unknown_ga4_matches2 c4]]
    by simp
  from r1 r2 r3 r4 show ?thesis by (intro conjI)
qed

section \<open>Array indices and the array length\<close>

text \<open>
  The key the items loop reads for the number \<open>n\<close> is its decimal form, which is the
  array index \<open>n\<close>; and the length of the products array is one more than its greatest
  array index.
\<close>

lemma digit_char_props:
  assumes "d < 10"
  shows "digit_value (digit_char d) = d" and "is_digit (digit_char d)"
    and "0 < d \<Longrightarrow> digit_char d \<noteq> CHR ''0''"
proof -
  from assms have "d = 0 \<or> d = 1 \<or> d = 2 \<or> d = 3 \<or> d = 4 \<or> d = 5 \<or> d = 6 \<or> d = 7
      \<or> d = 8 \<or> d = 9" by arith
  then show "digit_value (digit_char d) = d" and "is_digit (digit_char d)"
    and "0 < d \<Longrightarrow> digit_char d \<noteq> CHR ''0''"
    by (auto simp: digit_char_def digit_value_def is_digit_def)
qed

lemma nat_of_digits_snoc:
  "nat_of_digits (xs @ [c]) = 10 * nat_of_digits xs + digit_value c"
  by (simp add: nat_of_digits_def)

lemma nat_of_digits_dec: "nat_of_digits (dec n) = n"
proof (induction n rule: dec.induct)
  case (1 n)
  show ?case
  proof (cases "n < 10")
    case True
    then show ?thesis
      by (subst dec.simps) (simp add: nat_of_digits_def digit_char_props)
  next
    case False
    with "1.IH" show ?thesis
      by (subst dec.simps) (simp add: nat_of_digits_snoc digit_char_props)
  qed
qed

lemma dec_digits: "dec n \<noteq> [] \<and> list_all is_digit (dec n)"
proof (induction n rule: dec.induct)
  case (1 n)
  show ?case
  proof (cases "n < 10")
    case True
    then show ?thesis by (subst (1 2) dec.simps) (simp add: digit_char_props)
  next
    case False
    with "1.IH" show ?thesis by (subst (1 2) dec.simps) (simp add: digit_char_props)
  qed
qed

lemma dec_no_leading_zero: "0 < n \<Longrightarrow> hd (dec n) \<noteq> CHR ''0''"
proof (induction n rule: dec.induct)
  case (1 n)
  show ?case
  proof (cases "n < 10")
    case True
    with "1.prems" show ?thesis by (subst dec.simps) (simp add: digit_char_props)
  next
    case False
    then have "0 < n div 10" by simp
    with False "1.IH" have "hd (dec (n div 10)) \<noteq> CHR ''0''" by simp
    with False dec_digits [of "n div 10"] show ?thesis
      by (subst dec.simps) simp
  qed
qed

lemma index_of_dec: "n < 4294967295 \<Longrightarrow> index_of (dec n) = Some n"
proof (cases "n = 0")
  case True
  then show ?thesis
    by (simp add: dec.simps digit_char_def index_of_def is_digit_def nat_of_digits_def
        digit_value_def)
next
  case False
  assume "n < 4294967295"
  with False dec_digits [of n] dec_no_leading_zero [of n] show ?thesis
    by (simp add: index_of_def nat_of_digits_dec)
qed

lemma length_fold_mono:
  "n \<le> foldl (\<lambda>n kv. case index_of (fst kv) of None \<Rightarrow> n | Some i \<Rightarrow> max n (Suc i)) n arr"
proof (induction arr arbitrary: n)
  case Nil
  then show ?case by simp
next
  case (Cons kv arr)
  show ?case
  proof (cases "index_of (fst kv)")
    case None
    then show ?thesis using Cons [of n] by simp
  next
    case (Some i)
    then show ?thesis using Cons [of "max n (Suc i)"] by simp
  qed
qed

lemma length_fold_bound:
  "kv \<in> set arr \<Longrightarrow> index_of (fst kv) = Some i \<Longrightarrow>
   i < foldl (\<lambda>n kv. case index_of (fst kv) of None \<Rightarrow> n | Some i \<Rightarrow> max n (Suc i)) n arr"
proof (induction arr arbitrary: n)
  case Nil
  then show ?case by simp
next
  case (Cons x arr)
  show ?case
  proof (cases "kv = x")
    case True
    with Cons.prems(2) length_fold_mono [of "max n (Suc i)" arr] show ?thesis by simp
  next
    case False
    with Cons show ?thesis by (simp split: option.splits)
  qed
qed

lemma length_fold_attained:
  "foldl (\<lambda>n kv. case index_of (fst kv) of None \<Rightarrow> n | Some i \<Rightarrow> max n (Suc i)) n arr = n
   \<or> (\<exists>kv \<in> set arr. index_of (fst kv)
         = Some (foldl (\<lambda>n kv. case index_of (fst kv) of None \<Rightarrow> n | Some i \<Rightarrow> max n (Suc i)) n arr - 1))"
proof (induction arr arbitrary: n)
  case Nil
  then show ?case by simp
next
  case (Cons x arr)
  show ?case
  proof (cases "index_of (fst x)")
    case None
    then show ?thesis using Cons [of n] by auto
  next
    case (Some i)
    show ?thesis
    proof (cases "Suc i \<le> n")
      case True
      then have "max n (Suc i) = n" by simp
      with Some show ?thesis using Cons [of n] by auto
    next
      case False
      then have m: "max n (Suc i) = Suc i" by simp
      from Cons [of "Suc i"] Some m show ?thesis by auto
    qed
  qed
qed

lemma array_length_bound:
  "kv \<in> set arr \<Longrightarrow> index_of (fst kv) = Some i \<Longrightarrow> i < array_length arr"
  unfolding array_length_def by (rule length_fold_bound)

lemma array_length_attained:
  "0 < array_length arr \<Longrightarrow>
   \<exists>kv \<in> set arr. index_of (fst kv) = Some (array_length arr - 1)"
  unfolding array_length_def using length_fold_attained [of 0 arr] by auto

section \<open>The items list of the recommendation\<close>

lemma for_in_lines_closed:
  "for_in_lines line obj kvs str
   = (if kvs \<noteq> [] \<and> shadows_hasOwnProperty obj then Inl TypeError
      else Inr (str @ concat (map line kvs)))"
  by (induction kvs arbitrary: str) auto

lemma for_in_length: "length (for_in obj) = length obj"
  by (simp add: for_in_def sum_length_filter_compl)

lemma for_in_Nil: "for_in obj = [] \<longleftrightarrow> obj = []"
  using for_in_length [of obj] by (metis length_0_conv)

lemma shadows_iff: "shadows_hasOwnProperty obj \<longleftrightarrow> \<not> calls_inherited (Some obj)"
  by (simp add: shadows_hasOwnProperty_def calls_inherited_def split: option.splits)

lemma shadows_not_empty: "shadows_hasOwnProperty obj \<Longrightarrow> obj \<noteq> []"
  by (auto simp: shadows_hasOwnProperty_def)

lemma eventParamsString_closed:
  "eventParamsString ps = (if calls_inherited ps then Inr (params_text ps) else Inl TypeError)"
proof (cases ps)
  case None
  then show ?thesis by (simp add: eventParamsString_def calls_inherited_def params_text_def)
next
  case (Some obj)
  show ?thesis
  proof (cases "shadows_hasOwnProperty obj")
    case True
    with shadows_not_empty [OF True] Some show ?thesis
      by (simp add: eventParamsString_def for_in_lines_closed for_in_Nil shadows_iff)
  next
    case False
    with Some show ?thesis
      by (simp add: eventParamsString_def for_in_lines_closed params_text_def shadows_iff)
  qed
qed

lemma item_block_closed:
  "item_block p = (if calls_inherited p then Inr (object_literal p) else Inl TypeError)"
proof (cases p)
  case None
  then show ?thesis by (simp add: item_block_def calls_inherited_def object_literal_def)
next
  case (Some obj)
  show ?thesis
  proof (cases "shadows_hasOwnProperty obj")
    case True
    with shadows_not_empty [OF True] Some show ?thesis
      by (simp add: item_block_def for_in_lines_closed for_in_Nil shadows_iff)
  next
    case False
    with Some show ?thesis
      by (simp add: item_block_def for_in_lines_closed object_literal_def shadows_iff)
  qed
qed

lemma items_string_loop_closed:
  "items_string_loop prods i str
   = (if list_all (\<lambda>n. calls_inherited (map_of prods (dec n))) [i..<array_length prods]
      then Inr (str @ concat (map (\<lambda>n. object_literal (map_of prods (dec n)))
                               [i..<array_length prods]))
      else Inl TypeError)"
proof (induction prods i str rule: items_string_loop.induct)
  case (1 prods i itemsString)
  show ?case
  proof (cases "i < array_length prods")
    case False
    then show ?thesis by (subst items_string_loop.simps) simp
  next
    case True
    then have u: "[i..<array_length prods] = i # [Suc i..<array_length prods]"
      by (simp add: upt_conv_Cons)
    show ?thesis
    proof (cases "calls_inherited (map_of prods (dec i))")
      case False
      with True u show ?thesis
        by (subst items_string_loop.simps) (simp add: item_block_closed)
    next
      case c: True
      have b: "item_block (map_of prods (dec i)) = Inr (object_literal (map_of prods (dec i)))"
        using c by (simp add: item_block_closed)
      show ?thesis
        using True u c "1.IH" [OF True b]
        by (subst items_string_loop.simps) (simp add: b)
    qed
  qed
qed

lemma object_literal_not_empty: "object_literal p \<noteq> []"
  by (simp add: object_literal_def)

text \<open>
  When \<^verbatim>\<open>params\<close>, or a product at an index the items loop visits, has an own property
  named \<^verbatim>\<open>hasOwnProperty\<close>, the renderer throws. The decoders build such records:
  \<^verbatim>\<open>&ep.hasOwnProperty=x\<close> is decoded into the parameter \<^verbatim>\<open>hasOwnProperty: "x"\<close>.
\<close>

lemma buildGa4GtagCommand_throws:
  assumes "\<not> (calls_inherited (params r)
             \<and> list_all (\<lambda>n. calls_inherited (map_of (products r) (dec n)))
                  [1..<array_length (products r)])"
  shows "buildGa4GtagCommand r = Inl TypeError"
  using assms
  by (auto simp: buildGa4GtagCommand_def eventParamsString_closed items_string_loop_closed)

lemma shadowing_param_matches:
  "matchAll GA4_PARAM_REGEX ''&ep.hasOwnProperty=x''
   = [[''&ep'', [], ''.'', ''hasOwnProperty'', ''='', ''x'']]"
  by (simp add: GA4_PARAM_REGEX_def is_n_def not_eq_def not_amp_def took_def took_more_def)

lemma buildGa4GtagCommand_throws_example:
  "params (ga4_parse ''&ep.hasOwnProperty=x'') = Some [(''hasOwnProperty'', ''x'')]
   \<and> buildGa4GtagCommand (ga4_parse ''&ep.hasOwnProperty=x'') = Inl TypeError"
proof -
  have p: "params (ga4_parse ''&ep.hasOwnProperty=x'') = Some [(''hasOwnProperty'', ''x'')]"
    unfolding ga4_parse_def ga4_params_def shadowing_param_matches
    by (simp add: obj_set_def)
  then have "\<not> calls_inherited (params (ga4_parse ''&ep.hasOwnProperty=x''))"
    by (simp add: calls_inherited_def)
  then have "buildGa4GtagCommand (ga4_parse ''&ep.hasOwnProperty=x'') = Inl TypeError"
    by (simp add: buildGa4GtagCommand_throws)
  with p show ?thesis by simp
qed

lemma array_length_example1: "array_length [(''1'', [(''item_id'', ''X'')])] = 2"
  by (simp add: array_length_def index_of_def is_digit_def nat_of_digits_def digit_value_def)

lemma array_length_example2:
  "array_length [(''1'', [(''item_id'', ''X'')]), (''3'', [(''item_id'', ''Y'')])] = 4"
  by (simp add: array_length_def index_of_def is_digit_def nat_of_digits_def digit_value_def)

lemma dec_small: "dec (Suc 0) = ''1''" "dec 2 = ''2''" "dec 3 = ''3''"
  by (simp_all add: dec.simps digit_char_def)

lemma upt_examples: "[Suc 0..<2] = [Suc 0]" "[Suc 0..<4] = [Suc 0, 2, 3]"
  by (simp_all add: upt_rec)

lemma for_in_single: "for_in [(''item_id'', v)] = [(''item_id'', v)]"
  "for_in [(''value'', v)] = [(''value'', v)]"
  by (simp_all add: for_in_def is_index_def index_of_def is_digit_def)

text \<open>
  C4 (one object literal per populated index from 1 on, none for an absent index). The
  loop runs over every number from 1 below the array length and appends an opening and a
  closing line each time: with products at the indices 1 and 3 only, three object
  literals are rendered, the second one, for the absent index 2, being empty.
\<close>

theorem items_skip_absent_indices_counterexample:
  "map_of [(''1'', [(''item_id'', ''X'')]), (''3'', [(''item_id'', ''Y'')])] ''2'' = None
   \<and> buildGa4GtagCommand
     \<lparr> products = [(''1'', [(''item_id'', ''X'')]), (''3'', [(''item_id'', ''Y'')])],
       impressions = None, promos = None, params = Some [], event = Some ''purchase'' \<rparr>
   = Inr ''gtag('event', 'purchase', {\<newline>  'items': [\<newline>    {\<newline>      'item_id: 'X',\<newline>    },\<newline>    {\<newline>    },\<newline>    {\<newline>      'item_id: 'Y',\<newline>    },\<newline>  ],\<newline>});''"
  by (simp add: buildGa4GtagCommand_def items_string_loop_closed array_length_example2
      upt_examples dec_small object_literal_def calls_inherited_def field_line_def
      for_in_single eventParamsString_closed params_text_def for_in_def event_text_def sq_def)

text \<open>
  C4 as amended. Take a record in which \<^verbatim>\<open>hasOwnProperty\<close> is the inherited method
  wherever the renderer calls it: neither \<^verbatim>\<open>params\<close> nor a product stored at an index from
  1 up has an own property of that name (on any other record the renderer throws a
  TypeError, \<open>buildGa4GtagCommand_throws\<close>). Then the renderer returns the command, and
  the command holds an \<^verbatim>\<open>items\<close> list exactly when the products array has an array index
  above 0. The list then has one object literal for every number from 1 up to the
  greatest array index of the products, in ascending order: the fields of the product
  stored there, and the empty literal where no product is stored. Index 0 is never
  rendered. The witness is the record with event \<^verbatim>\<open>purchase\<close>, parameter
  \<^verbatim>\<open>value: "9.99"\<close> and one product at index 1: exactly one item block.
\<close>

theorem buildGa4GtagCommand_items:
  assumes "calls_inherited (params r)"
    and "list_all (\<lambda>n. calls_inherited (map_of (products r) (dec n)))
           [1..<array_length (products r)]"
  shows "buildGa4GtagCommand r
   = Inr (''gtag('event', '' @ sq @ event_text (event r) @ sq @ '', {''
     @ params_text (params r)
     @ (if array_length (products r) \<le> 1 then ''\<newline>''
        else ''\<newline>  'items': [\<newline>''
             @ concat (map (\<lambda>n. object_literal (map_of (products r) (dec n)))
                        [1..<array_length (products r)])
             @ ''  ],\<newline>'')
     @ ''});'')
   \<and> object_literal None = ''    {\<newline>    },\<newline>''
   \<and> (\<forall>kv i. kv \<in> set (products r) \<and> index_of (fst kv) = Some i
         \<longrightarrow> i < array_length (products r))
   \<and> (0 < array_length (products r)
      \<longrightarrow> (\<exists>kv \<in> set (products r).
             index_of (fst kv) = Some (array_length (products r) - 1)))"
proof (intro conjI)
  show "\<forall>kv i. kv \<in> set (products r) \<and> index_of (fst kv) = Some i
         \<longrightarrow> i < array_length (products r)"
    using array_length_bound by blast
  show "0 < array_length (products r)
      \<longrightarrow> (\<exists>kv \<in> set (products r).
             index_of (fst kv) = Some (array_length (products r) - 1))"
    using array_length_attained by blast
  show "object_literal None = ''    {\<newline>    },\<newline>''"
    by (simp add: object_literal_def)
  let ?blocks = "concat (map (\<lambda>n. object_literal (map_of (products r) (dec n)))
                        [1..<array_length (products r)])"
  have loop: "items_string_loop (products r) 1 [] = Inr ?blocks"
    using assms(2) by (simp add: items_string_loop_closed)
  have e: "(?blocks \<noteq> []) = (\<not> array_length (products r) \<le> 1)"
  proof (cases "1 < array_length (products r)")
    case True
    then have "[Suc 0..<array_length (products r)]
               = Suc 0 # [Suc (Suc 0)..<array_length (products r)]"
      by (simp add: upt_conv_Cons)
    with True show ?thesis by (simp add: object_literal_not_empty)
  next
    case False
    then show ?thesis by simp
  qed
  show "buildGa4GtagCommand r
   = Inr (''gtag('event', '' @ sq @ event_text (event r) @ sq @ '', {''
     @ params_text (params r)
     @ (if array_length (products r) \<le> 1 then ''\<newline>''
        else ''\<newline>  'items': [\<newline>''
             @ concat (map (\<lambda>n. object_literal (map_of (products r) (dec n)))
                        [1..<array_length (products r)])
             @ ''  ],\<newline>'')
     @ ''});'')"
    unfolding buildGa4GtagCommand_def eventParamsString_closed loop
    using assms(1) e by simp
qed

theorem buildGa4GtagCommand_items_witness:
  "calls_inherited (Some [(''value'', ''9.99'')])
   \<and> calls_inherited (Some [(''item_id'', ''X'')])
   \<and> buildGa4GtagCommand
     \<lparr> products = [(''1'', [(''item_id'', ''X'')])], impressions = None, promos = None,
       params = Some [(''value'', ''9.99'')], event = Some ''purchase'' \<rparr>
   = Inr ''gtag('event', 'purchase', {\<newline>  'value': '9.99',\<newline>  'items': [\<newline>    {\<newline>      'item_id: 'X',\<newline>    },\<newline>  ],\<newline>});''"
proof -
  let ?r = "\<lparr> products = [(''1'', [(''item_id'', ''X'')])], impressions = None,
             promos = None, params = Some [(''value'', ''9.99'')],
             event = Some ''purchase'' \<rparr>"
  have a: "calls_inherited (params ?r)"
    by (simp add: calls_inherited_def)
  have b: "list_all (\<lambda>n. calls_inherited (map_of (products ?r) (dec n)))
             [1..<array_length (products ?r)]"
    by (simp add: array_length_example1 upt_examples dec_small calls_inherited_def)
  from buildGa4GtagCommand_items [OF a b, THEN conjunct1] show ?thesis
    by (simp add: array_length_example1 upt_examples dec_small object_literal_def
        field_line_def for_in_single params_text_def param_line_def event_text_def sq_def
        calls_inherited_def)
qed

end
